theory Spec2Isabelle
  imports Main
begin

section \<open>Data model\<close>

text \<open>
  The two structs of the board: a card with its five fields, and the board holding the
  slice of cards. \<open>Position\<close> is a Go \<open>int\<close>; it is modelled as an integer, and the one
  addition the program performs on it (in the create handler) wraps at 64 bits, written
  out in \<open>go_int\<close>.
\<close>

record Card =
  ID :: string
  Title :: string
  Description :: string
  Status :: string
  Position :: int

record Board =
  Cards :: "Card list"

definition go_int :: "int \<Rightarrow> int" where
  "go_int x = (x + 2 ^ 63) mod 2 ^ 64 - 2 ^ 63"

section \<open>Board store (s3.go)\<close>

text \<open>
  What \<open>GetObject\<close> followed by \<open>ReadAll\<close> can hand to \<open>LoadBoard\<close>: an error that is an
  API error with a code, any other error, a body that was read, or a body whose read
  failed. The JSON decoder is a library function and is taken as a parameter.
\<close>

datatype s3_get = ApiError string | OtherError | Body string | UnreadableBody

datatype store_error = ErrLoadingBoard | ErrReadingData | ErrDecodingJson | ErrSavingBoard

definition LoadBoard :: "(string \<Rightarrow> Board option) \<Rightarrow> s3_get \<Rightarrow> store_error + Board" where
  "LoadBoard unmarshal resp =
     (case resp of
        ApiError c \<Rightarrow>
          if c = ''NoSuchKey'' \<or> c = ''NotFound'' then Inr \<lparr>Cards = []\<rparr>
          else Inl ErrLoadingBoard
      | OtherError \<Rightarrow> Inl ErrLoadingBoard
      | UnreadableBody \<Rightarrow> Inl ErrReadingData
      | Body data \<Rightarrow>
          (case unmarshal data of
             None \<Rightarrow> Inl ErrDecodingJson
           | Some board \<Rightarrow> Inr board))"

text \<open>
  \<open>SaveBoard\<close> encodes the board (encoding a struct of strings and integers has no
  failing case) and issues one \<open>PutObject\<close> for the whole document; the flag says whether
  that request fails.
\<close>

definition SaveBoard :: "bool \<Rightarrow> Board \<Rightarrow> store_error option" where
  "SaveBoard put_fails board = (if put_fails then Some ErrSavingBoard else None)"

section \<open>Helpers of main.go\<close>

text \<open>
  \<open>generateID\<close> formats the clock reading (nanoseconds since the epoch) in decimal; the
  reading is an input of the model.
\<close>

definition digit :: "nat \<Rightarrow> char" where
  "digit d = ''0123456789'' ! d"

fun digits :: "nat \<Rightarrow> string" where
  "digits n = (if n < 10 then [digit n] else digits (n div 10) @ [digit (n mod 10)])"

declare digits.simps [simp del]

definition generateID :: "int \<Rightarrow> string" where
  "generateID now = (if now < 0 then CHR ''-'' # digits (nat (- now)) else digits (nat now))"

fun findCardIndex_from :: "int \<Rightarrow> Card list \<Rightarrow> string \<Rightarrow> int" where
  "findCardIndex_from i [] cid = -1"
| "findCardIndex_from i (c # cards) cid =
     (if ID c = cid then i else findCardIndex_from (i + 1) cards cid)"

definition findCardIndex :: "Card list \<Rightarrow> string \<Rightarrow> int" where
  "findCardIndex cards cid = findCardIndex_from 0 cards cid"

section \<open>Create (POST /api/card)\<close>

fun max_position :: "string \<Rightarrow> int \<Rightarrow> Card list \<Rightarrow> int" where
  "max_position st maxPos [] = maxPos"
| "max_position st maxPos (c # cards) =
     max_position st (if Status c = st \<and> Position c > maxPos then Position c else maxPos) cards"

definition new_card :: "int \<Rightarrow> Card \<Rightarrow> Card list \<Rightarrow> Card" where
  "new_card now crd cards =
     crd\<lparr>ID := generateID now, Position := go_int (max_position (Status crd) (-1) cards + 1)\<rparr>"

definition create_cards :: "int \<Rightarrow> Card \<Rightarrow> Card list \<Rightarrow> Card list" where
  "create_cards now crd cards = cards @ [new_card now crd cards]"

section \<open>Update (PUT /api/card/{id})\<close>

text \<open>
  The first loop of the handler: it overwrites the fields of the first card carrying the
  id, remembers that card's former status and position, and stops. The result is the
  slice, \<open>oldStatus\<close>, \<open>oldPosition\<close> and \<open>updated\<close>.
\<close>

fun apply_update :: "string \<Rightarrow> Card \<Rightarrow> Card list \<Rightarrow> Card list \<times> string \<times> int \<times> bool" where
  "apply_update cid update [] = ([], [], 0, False)"
| "apply_update cid update (c # cards) =
     (if ID c = cid then
        ((c\<lparr>Title := Title update, Description := Description update, Status := Status update,
             Position := (if Position update \<noteq> 0 \<or> Position update = 0 then Position update
                          else Position c)\<rparr>) # cards,
         Status c, Position c, True)
      else
        (case apply_update cid update cards of
           (cards', oldStatus, oldPosition, updated) \<Rightarrow>
             (c # cards', oldStatus, oldPosition, updated)))"

text \<open>The other cards of the target column, in the order of the slice.\<close>

fun others_of :: "string \<Rightarrow> string \<Rightarrow> Card list \<Rightarrow> Card list" where
  "others_of cid st [] = []"
| "others_of cid st (cc # cards) =
     (if ID cc = cid then others_of cid st cards
      else if Status cc = st then cc # others_of cid st cards
      else others_of cid st cards)"

text \<open>The inner and the outer loop that write the new positions back into the slice.\<close>

fun assign :: "string \<Rightarrow> int \<Rightarrow> string \<Rightarrow> Card list \<Rightarrow> Card list" where
  "assign nid i st [] = []"
| "assign nid i st (c # cards) =
     (if ID c = nid then c\<lparr>Position := i, Status := st\<rparr> else c) # assign nid i st cards"

fun reassign :: "Card list \<Rightarrow> int \<Rightarrow> string \<Rightarrow> Card list \<Rightarrow> Card list" where
  "reassign [] i st cards = cards"
| "reassign (nc # newOrder) i st cards = reassign newOrder (i + 1) st (assign (ID nc) i st cards)"

text \<open>
  Indexing and slicing panic in Go when the index is out of range; the panic is a value
  of the model.
\<close>

datatype failure = CardNotFound | IndexOutOfRange

definition index_at :: "'a list \<Rightarrow> int \<Rightarrow> failure + 'a" where
  "index_at xs i = (if 0 \<le> i \<and> i < int (length xs) then Inr (xs ! nat i) else Inl IndexOutOfRange)"

definition slice_to :: "'a list \<Rightarrow> int \<Rightarrow> failure + 'a list" where
  "slice_to xs hi =
     (if 0 \<le> hi \<and> hi \<le> int (length xs) then Inr (take (nat hi) xs) else Inl IndexOutOfRange)"

definition slice_from :: "'a list \<Rightarrow> int \<Rightarrow> failure + 'a list" where
  "slice_from xs lo =
     (if 0 \<le> lo \<and> lo \<le> int (length xs) then Inr (drop (nat lo) xs) else Inl IndexOutOfRange)"

definition clamp_pos :: "int \<Rightarrow> Card list \<Rightarrow> int" where
  "clamp_pos p others =
     (let pos = p;
          pos = (if pos < 0 then 0 else pos);
          pos = (if pos > int (length others) then int (length others) else pos)
      in pos)"

definition new_order :: "string \<Rightarrow> Card \<Rightarrow> Card list \<Rightarrow> int \<Rightarrow> failure + Card list" where
  "new_order cid update cards moveIdx =
     (let others = others_of cid (Status update) cards;
          pos = clamp_pos (Position update) others
      in case index_at cards moveIdx of
           Inl e \<Rightarrow> Inl e
         | Inr c \<Rightarrow>
             (let movingCard = c\<lparr>Status := Status update\<rparr>
              in case slice_to others pos of
                   Inl e \<Rightarrow> Inl e
                 | Inr front \<Rightarrow>
                     (let newOrder = front @ [movingCard]
                      in if pos < int (length others)
                         then (case slice_from others pos of
                                 Inl e \<Rightarrow> Inl e
                               | Inr back \<Rightarrow> Inr (newOrder @ back))
                         else Inr newOrder)))"

definition reposition :: "string \<Rightarrow> Card \<Rightarrow> Card list \<Rightarrow> failure + Card list" where
  "reposition cid update cards =
     (let moveIdx = findCardIndex cards cid
      in if moveIdx = -1 then Inr cards
         else (case new_order cid update cards moveIdx of
                 Inl e \<Rightarrow> Inl e
               | Inr newOrder \<Rightarrow> Inr (reassign newOrder 0 (Status update) cards)))"

definition update_cards :: "string \<Rightarrow> Card \<Rightarrow> Card list \<Rightarrow> failure + Card list" where
  "update_cards cid update cards =
     (case apply_update cid update cards of
        (cards', oldStatus, oldPosition, updated) \<Rightarrow>
          if \<not> updated then Inl CardNotFound
          else if oldStatus \<noteq> Status update \<or> oldPosition \<noteq> Position update
               then reposition cid update cards'
               else Inr cards')"

section \<open>Delete (DELETE /api/card/{id})\<close>

fun remove_id :: "string \<Rightarrow> Card list \<Rightarrow> Card list" where
  "remove_id cid [] = []"
| "remove_id cid (c # cards) =
     (if ID c \<noteq> cid then c # remove_id cid cards else remove_id cid cards)"

definition delete_cards :: "string \<Rightarrow> Card list \<Rightarrow> failure + Card list" where
  "delete_cards cid cards =
     (let countBefore = length cards; newCards = remove_id cid cards
      in if length newCards = countBefore then Inl CardNotFound else Inr newCards)"

section \<open>The handlers\<close>

text \<open>
  A handler answers with an HTTP status and a payload, and it may have called \<open>SaveBoard\<close>:
  \<open>saved\<close> is the board it handed to \<open>SaveBoard\<close>, or \<open>None\<close> when it returned before.
  \<open>SaveBoard\<close> is the only place that writes to the store, so the persisted document is
  untouched whenever \<open>saved\<close> is \<open>None\<close>. A panic inside a handler aborts the request
  before any status is written: that is \<open>aborted\<close>.
\<close>

datatype payload = NoPayload | Text string | CardJson Card | BoardJson Board | Aborted

record reply =
  code :: nat
  payload :: payload
  saved :: "Board option"

definition answer :: "nat \<Rightarrow> reply" where
  "answer n = \<lparr>code = n, payload = NoPayload, saved = None\<rparr>"

definition aborted :: reply where
  "aborted = \<lparr>code = 0, payload = Aborted, saved = None\<rparr>"

definition save_and_answer :: "bool \<Rightarrow> Board \<Rightarrow> nat \<Rightarrow> payload \<Rightarrow> reply" where
  "save_and_answer put_fails board n p =
     (case SaveBoard put_fails board of
        Some err \<Rightarrow> \<lparr>code = 500, payload = NoPayload, saved = Some board\<rparr>
      | None \<Rightarrow> \<lparr>code = n, payload = p, saved = Some board\<rparr>)"

definition get_board :: "(string \<Rightarrow> Board option) \<Rightarrow> s3_get \<Rightarrow> reply" where
  "get_board unmarshal resp =
     (case LoadBoard unmarshal resp of
        Inl err \<Rightarrow> \<lparr>code = 500, payload = Text ''Failed to load board'', saved = None\<rparr>
      | Inr board \<Rightarrow> \<lparr>code = 200, payload = BoardJson board, saved = None\<rparr>)"

definition post_card ::
  "(string \<Rightarrow> Board option) \<Rightarrow> s3_get \<Rightarrow> bool \<Rightarrow> int \<Rightarrow> Card option \<Rightarrow> reply" where
  "post_card unmarshal resp put_fails now body =
     (case body of
        None \<Rightarrow> answer 400
      | Some crd \<Rightarrow>
          (case LoadBoard unmarshal resp of
             Inl err \<Rightarrow> answer 500
           | Inr board \<Rightarrow>
               save_and_answer put_fails (board\<lparr>Cards := create_cards now crd (Cards board)\<rparr>)
                 200 (CardJson (new_card now crd (Cards board)))))"

definition put_card ::
  "(string \<Rightarrow> Board option) \<Rightarrow> s3_get \<Rightarrow> bool \<Rightarrow> string \<Rightarrow> Card option \<Rightarrow> reply" where
  "put_card unmarshal resp put_fails cid body =
     (case body of
        None \<Rightarrow> answer 400
      | Some update \<Rightarrow>
          (case LoadBoard unmarshal resp of
             Inl err \<Rightarrow> answer 500
           | Inr board \<Rightarrow>
               (case update_cards cid update (Cards board) of
                  Inl CardNotFound \<Rightarrow> answer 404
                | Inl IndexOutOfRange \<Rightarrow> aborted
                | Inr cards' \<Rightarrow>
                    save_and_answer put_fails (board\<lparr>Cards := cards'\<rparr>) 204 NoPayload)))"

definition delete_card ::
  "(string \<Rightarrow> Board option) \<Rightarrow> s3_get \<Rightarrow> bool \<Rightarrow> string \<Rightarrow> reply" where
  "delete_card unmarshal resp put_fails cid =
     (case LoadBoard unmarshal resp of
        Inl err \<Rightarrow> answer 500
      | Inr board \<Rightarrow>
          (case delete_cards cid (Cards board) of
             Inl e \<Rightarrow> answer 404
           | Inr newCards \<Rightarrow>
               save_and_answer put_fails (board\<lparr>Cards := newCards\<rparr>) 204 NoPayload))"

section \<open>Sequences of requests\<close>

text \<open>
  The board that successive successful saves leave in the store, starting from the empty
  board of a store without document. A request that fails leaves the board as it was.
\<close>

datatype request = Create int Card | Update string Card | Delete string

fun step :: "Card list \<Rightarrow> request \<Rightarrow> Card list" where
  "step cards (Create now crd) = create_cards now crd cards"
| "step cards (Update cid update) =
     (case update_cards cid update cards of Inl e \<Rightarrow> cards | Inr cards' \<Rightarrow> cards')"
| "step cards (Delete cid) =
     (case delete_cards cid cards of Inl e \<Rightarrow> cards | Inr cards' \<Rightarrow> cards')"

definition run :: "request list \<Rightarrow> Card list" where
  "run reqs = foldl step [] reqs"

text \<open>Every create receives an id that no card of the board carries at that moment.\<close>

fun fresh_ids :: "Card list \<Rightarrow> request list \<Rightarrow> bool" where
  "fresh_ids cards [] = True"
| "fresh_ids cards (Create now crd # reqs) =
     (generateID now \<notin> ID ` set cards \<and> fresh_ids (step cards (Create now crd)) reqs)"
| "fresh_ids cards (r # reqs) = fresh_ids (step cards r) reqs"

section \<open>Columns\<close>

definition column :: "string \<Rightarrow> Card list \<Rightarrow> Card list" where
  "column st cards = filter (\<lambda>c. Status c = st) cards"

text \<open>The dense ordering of the data model: in every column the positions are \<open>0, ..., k - 1\<close>.\<close>

definition dense :: "Card list \<Rightarrow> bool" where
  "dense cards =
     (\<forall>st \<in> set (map Status cards).
        set (map Position (column st cards)) = {0 ..< int (length (column st cards))})"

section \<open>Notions used in the statements and proofs\<close>

text \<open>
  The field assignments of the first loop of the update handler, with its guard on the
  position (which holds for every integer) resolved.
\<close>

definition overwrite :: "Card \<Rightarrow> Card \<Rightarrow> Card" where
  "overwrite update c =
     c\<lparr>Title := Title update, Description := Description update, Status := Status update,
       Position := Position update\<rparr>"

text \<open>
  What the two loops of \<open>reassign\<close> do to a single card, given the ids of the new order, and
  the first index of an element in a list.
\<close>

fun renumber :: "string list \<Rightarrow> int \<Rightarrow> string \<Rightarrow> Card \<Rightarrow> Card" where
  "renumber [] i st c = c"
| "renumber (n # ns) i st c =
     renumber ns (i + 1) st (if ID c = n then c\<lparr>Position := i, Status := st\<rparr> else c)"

fun first_index :: "'a list \<Rightarrow> 'a \<Rightarrow> nat" where
  "first_index [] x = 0"
| "first_index (y # ys) x = (if x = y then 0 else Suc (first_index ys x))"

text \<open>The ids of the new order that the update handler builds for the target column.\<close>

definition moved_ids :: "string \<Rightarrow> Card \<Rightarrow> Card list \<Rightarrow> string list" where
  "moved_ids cid update cards =
     (let others = others_of cid (Status update) cards;
          n = nat (clamp_pos (Position update) others)
      in map ID (take n others) @ cid # map ID (drop n others))"

text \<open>
  On a board with unique ids the renumbering amounts to this: a card of the target column
  gets the index of its id in the new order, any other card is left alone.
\<close>

definition place :: "string list \<Rightarrow> string \<Rightarrow> Card \<Rightarrow> Card" where
  "place ids st c = (if Status c = st then c\<lparr>Position := int (first_index ids (ID c))\<rparr> else c)"

text \<open>
  A second reading of the other cards of the target column, the one by ascending position;
  \<open>others_of\<close> above is the one of the handler.
\<close>

definition others_by_position :: "string \<Rightarrow> string \<Rightarrow> Card list \<Rightarrow> Card list" where
  "others_by_position cid st cards = sort_key Position (others_of cid st cards)"

text \<open>
  What holds of every board that \<open>n\<close> requests can leave: unique ids, no position twice in
  a column, positions from 0 up to the number of requests, and at most \<open>n\<close> cards.
\<close>

definition board_ok :: "nat \<Rightarrow> Card list \<Rightarrow> bool" where
  "board_ok n cards =
     (distinct (map ID cards) \<and>
      (\<forall>st. distinct (map Position (column st cards))) \<and>
      (\<forall>c \<in> set cards. 0 \<le> Position c \<and> Position c < int n) \<and>
      length cards \<le> n)"

text \<open>Reading a decimal numeral back: the value of a digit and of a string of digits.\<close>

definition digit_value :: "char \<Rightarrow> nat" where
  "digit_value c = first_index ''0123456789'' c"

definition number_of :: "string \<Rightarrow> nat" where
  "number_of s = foldl (\<lambda>a c. 10 * a + digit_value c) 0 s"

text \<open>
  No id that the repositioning looks for is carried by two cards: neither the id of the
  moving card nor the id of a card of the target column. It holds on every board with
  unique ids.
\<close>

definition ids_once :: "string \<Rightarrow> string \<Rightarrow> Card list \<Rightarrow> bool" where
  "ids_once cid st cards =
     distinct (map ID (filter (\<lambda>c. ID c = cid \<or> ID c \<in> ID ` set (column st cards)) cards))"

text \<open>The dense ordering of a single column.\<close>

definition dense_in :: "string \<Rightarrow> Card list \<Rightarrow> bool" where
  "dense_in st cards \<longleftrightarrow>
     set (map Position (column st cards)) = {0 ..< int (length (column st cards))}"

text \<open>
  What a request does to a column on a board with unique ids. The cards that it takes out
  of the column, which neither handler renumbers: the card that a delete removes, or the
  card that an update gives another status.
\<close>

fun leaving :: "string \<Rightarrow> Card list \<Rightarrow> request \<Rightarrow> Card list" where
  "leaving st cards (Create now crd) = []"
| "leaving st cards (Delete cid) = filter (\<lambda>c. ID c = cid) (column st cards)"
| "leaving st cards (Update cid update) =
     (if Status update = st then [] else filter (\<lambda>c. ID c = cid) (column st cards))"

text \<open>
  And whether it is an update that triggers the repositioning with the column as target:
  the card is on the board and the request changes its status or its position.
\<close>

fun entering :: "string \<Rightarrow> Card list \<Rightarrow> request \<Rightarrow> bool" where
  "entering st cards (Create now crd) = False"
| "entering st cards (Delete cid) = False"
| "entering st cards (Update cid update) =
     (Status update = st \<and>
      (\<exists>c \<in> set cards. ID c = cid \<and> (Status c \<noteq> st \<or> Position c \<noteq> Position update)))"

section \<open>Finding a card\<close>

lemma findCardIndex_from_range:
  "findCardIndex_from k cards cid = -1 \<or> k \<le> findCardIndex_from k cards cid"
proof (induction cards arbitrary: k)
  case Nil
  then show ?case by simp
next
  case (Cons c cards)
  from Cons.IH [of "k + 1"] show ?case by auto
qed

lemma findCardIndex_from_absent:
  "cid \<notin> ID ` set cards \<Longrightarrow> findCardIndex_from k cards cid = -1"
  by (induction cards arbitrary: k) auto

lemma findCardIndex_from_present:
  "cid \<in> ID ` set cards \<Longrightarrow> \<exists>i. findCardIndex_from k cards cid = k + int i"
proof (induction cards arbitrary: k)
  case Nil
  then show ?case by simp
next
  case (Cons c cards)
  show ?case
  proof (cases "ID c = cid")
    case True
    then show ?thesis by simp
  next
    case False
    with Cons.prems have "cid \<in> ID ` set cards" by auto
    from Cons.IH [OF this, of "k + 1"] obtain i
      where "findCardIndex_from (k + 1) cards cid = k + 1 + int i" by blast
    with False have "findCardIndex_from k (c # cards) cid = k + int (Suc i)" by simp
    then show ?thesis by blast
  qed
qed

lemma findCardIndex_from_apply_update:
  "0 \<le> k \<Longrightarrow> findCardIndex_from k cards cid = k + int i \<Longrightarrow>
   i < length cards \<and> ID (cards ! i) = cid \<and>
   apply_update cid update cards =
     (cards[i := overwrite update (cards ! i)], Status (cards ! i), Position (cards ! i), True)"
proof (induction cards arbitrary: k i)
  case Nil
  then show ?case by simp
next
  case (Cons c cards)
  show ?case
  proof (cases "ID c = cid")
    case True
    with Cons.prems have "i = 0" by simp
    with True show ?thesis by (simp add: overwrite_def)
  next
    case False
    with Cons.prems have f: "findCardIndex_from (k + 1) cards cid = k + int i" by simp
    from findCardIndex_from_range [of "k + 1" cards cid] f Cons.prems(1)
    have "0 < i" by auto
    then obtain i' where i: "i = Suc i'" by (cases i) auto
    with f have "findCardIndex_from (k + 1) cards cid = (k + 1) + int i'" by simp
    from Cons.IH [OF _ this] Cons.prems(1)
    have "i' < length cards \<and> ID (cards ! i') = cid \<and>
      apply_update cid update cards =
        (cards[i' := overwrite update (cards ! i')], Status (cards ! i'), Position (cards ! i'), True)"
      by simp
    with False i show ?thesis by simp
  qed
qed

lemma findCardIndex_found:
  assumes "findCardIndex cards cid = int i"
  shows "i < length cards" and "ID (cards ! i) = cid"
    and "apply_update cid update cards =
      (cards[i := overwrite update (cards ! i)], Status (cards ! i), Position (cards ! i), True)"
  using findCardIndex_from_apply_update [of 0 cards cid i update] assms
  by (simp_all add: findCardIndex_def)

lemma findCardIndex_present:
  "cid \<in> ID ` set cards \<Longrightarrow> \<exists>i. findCardIndex cards cid = int i"
  using findCardIndex_from_present [of cid cards 0] by (simp add: findCardIndex_def)

lemma apply_update_absent:
  "cid \<notin> ID ` set cards \<Longrightarrow> apply_update cid update cards = (cards, [], 0, False)"
  by (induction cards) auto

lemma remove_id_filter: "remove_id cid cards = filter (\<lambda>c. ID c \<noteq> cid) cards"
  by (induction cards) auto

lemma remove_id_absent: "cid \<notin> ID ` set cards \<Longrightarrow> remove_id cid cards = cards"
  by (induction cards) auto

lemma update_cards_absent:
  "cid \<notin> ID ` set cards \<Longrightarrow> update_cards cid update cards = Inl CardNotFound"
  by (simp add: update_cards_def apply_update_absent)

lemma delete_cards_absent:
  "cid \<notin> ID ` set cards \<Longrightarrow> delete_cards cid cards = Inl CardNotFound"
  by (simp add: delete_cards_def remove_id_absent)

section \<open>Unknown ids\<close>

text \<open>
  C7: for a board without a card of the given id, the update request and the delete
  request both answer 404 (card not found) and neither calls \<open>SaveBoard\<close>, so the
  persisted board stays as it was.
\<close>

theorem unknown_id_not_found:
  assumes "LoadBoard unmarshal resp = Inr board" and "cid \<notin> ID ` set (Cards board)"
  shows "put_card unmarshal resp put_fails cid (Some update) =
           \<lparr>code = 404, payload = NoPayload, saved = None\<rparr> \<and>
         delete_card unmarshal resp put_fails cid =
           \<lparr>code = 404, payload = NoPayload, saved = None\<rparr> \<and>
         update_cards cid update (Cards board) = Inl CardNotFound \<and>
         delete_cards cid (Cards board) = Inl CardNotFound"
  using assms
  by (simp add: put_card_def delete_card_def update_cards_absent delete_cards_absent answer_def)

theorem unknown_id_not_found_witness:
  "LoadBoard
     (\<lambda>d. Some \<lparr>Cards = [\<lparr>ID = ''7'', Title = ''t'', Description = [], Status = ''ToDo'',
                          Position = 0\<rparr>]\<rparr>)
     (Body ''doc'') =
     Inr \<lparr>Cards = [\<lparr>ID = ''7'', Title = ''t'', Description = [], Status = ''ToDo'',
                     Position = 0\<rparr>]\<rparr> \<and>
   ''8'' \<notin> ID ` set (Cards \<lparr>Cards = [\<lparr>ID = ''7'', Title = ''t'', Description = [],
                                      Status = ''ToDo'', Position = 0\<rparr>]\<rparr>) \<and>
   put_card
     (\<lambda>d. Some \<lparr>Cards = [\<lparr>ID = ''7'', Title = ''t'', Description = [], Status = ''ToDo'',
                          Position = 0\<rparr>]\<rparr>)
     (Body ''doc'') False ''8''
     (Some \<lparr>ID = [], Title = ''u'', Description = [], Status = ''Done'', Position = 3\<rparr>) =
     \<lparr>code = 404, payload = NoPayload, saved = None\<rparr> \<and>
   delete_card
     (\<lambda>d. Some \<lparr>Cards = [\<lparr>ID = ''7'', Title = ''t'', Description = [], Status = ''ToDo'',
                          Position = 0\<rparr>]\<rparr>)
     (Body ''doc'') False ''8'' =
     \<lparr>code = 404, payload = NoPayload, saved = None\<rparr>"
proof -
  let ?b = "\<lparr>Cards = [\<lparr>ID = ''7'', Title = ''t'', Description = [], Status = ''ToDo'',
                        Position = 0\<rparr>]\<rparr>"
  have l: "LoadBoard (\<lambda>d. Some ?b) (Body ''doc'') = Inr ?b" by (simp add: LoadBoard_def)
  have a: "''8'' \<notin> ID ` set (Cards ?b)" by simp
  from unknown_id_not_found [OF l a, of False
      "\<lparr>ID = [], Title = ''u'', Description = [], Status = ''Done'', Position = 3\<rparr>"] l a
  show ?thesis by simp
qed

section \<open>Loading the board\<close>

text \<open>
  C8: loading when the document is absent (the store answers \<open>NoSuchKey\<close> or \<open>NotFound\<close>)
  is not an error and gives the empty board; a document that does not decode gives the
  decoding error, never the empty board: every handler then answers 500 and none of them
  saves anything.
\<close>

theorem load_absent_or_corrupt:
  "LoadBoard unmarshal (ApiError ''NoSuchKey'') = Inr \<lparr>Cards = []\<rparr> \<and>
   LoadBoard unmarshal (ApiError ''NotFound'') = Inr \<lparr>Cards = []\<rparr> \<and>
   (unmarshal data = None \<longrightarrow>
      LoadBoard unmarshal (Body data) = Inl ErrDecodingJson \<and>
      get_board unmarshal (Body data) =
        \<lparr>code = 500, payload = Text ''Failed to load board'', saved = None\<rparr> \<and>
      post_card unmarshal (Body data) put_fails now (Some crd) =
        \<lparr>code = 500, payload = NoPayload, saved = None\<rparr> \<and>
      put_card unmarshal (Body data) put_fails cid (Some update) =
        \<lparr>code = 500, payload = NoPayload, saved = None\<rparr> \<and>
      delete_card unmarshal (Body data) put_fails cid =
        \<lparr>code = 500, payload = NoPayload, saved = None\<rparr>)"
  by (simp add: LoadBoard_def get_board_def post_card_def put_card_def delete_card_def answer_def)

theorem load_absent_or_corrupt_witness:
  "(\<lambda>d. if d = ''{}'' then Some \<lparr>Cards = []\<rparr> else None) ''{'' = None \<and>
   LoadBoard (\<lambda>d. if d = ''{}'' then Some \<lparr>Cards = []\<rparr> else None)
     (Body ''{'') = Inl ErrDecodingJson \<and>
   LoadBoard (\<lambda>d. if d = ''{}'' then Some \<lparr>Cards = []\<rparr> else None)
     (ApiError ''NoSuchKey'') = Inr \<lparr>Cards = []\<rparr>"
  using load_absent_or_corrupt
    [of "\<lambda>d. if d = ''{}'' then Some \<lparr>Cards = []\<rparr> else None" "''{''"]
  by simp

section \<open>The repositioning step\<close>

lemma assign_map:
  "assign nid i st cards =
     map (\<lambda>c. if ID c = nid then c\<lparr>Position := i, Status := st\<rparr> else c) cards"
  by (induction cards) auto

lemma map_renumber_Nil: "map (renumber [] i st) cards = cards"
  by (induction cards) auto

lemma reassign_map: "reassign newOrder i st cards = map (renumber (map ID newOrder) i st) cards"
  by (induction newOrder arbitrary: i cards) (simp_all add: assign_map map_renumber_Nil o_def)

lemma renumber_ID [simp]: "ID (renumber ns i st c) = ID c"
  by (induction ns arbitrary: i c) auto

lemma renumber_Title [simp]: "Title (renumber ns i st c) = Title c"
  by (induction ns arbitrary: i c) auto

lemma renumber_Description [simp]: "Description (renumber ns i st c) = Description c"
  by (induction ns arbitrary: i c) auto

lemma renumber_absent: "ID c \<notin> set ns \<Longrightarrow> renumber ns i st c = c"
  by (induction ns arbitrary: i) auto

lemma renumber_Status: "Status c = st \<Longrightarrow> Status (renumber ns i st c) = st"
  by (induction ns arbitrary: i c) auto

lemma renumber_present_Status: "ID c \<in> set ns \<Longrightarrow> Status (renumber ns i st c) = st"
  by (induction ns arbitrary: i c) (auto simp: renumber_Status)

lemma renumber_distinct:
  "distinct ns \<Longrightarrow> ID c \<in> set ns \<Longrightarrow>
   renumber ns i st c = c\<lparr>Position := i + int (first_index ns (ID c)), Status := st\<rparr>"
proof (induction ns arbitrary: i c)
  case Nil
  then show ?case by simp
next
  case (Cons n ns)
  show ?case
  proof (cases "ID c = n")
    case True
    with Cons.prems have "ID (c\<lparr>Position := i, Status := st\<rparr>) \<notin> set ns" by simp
    from renumber_absent [OF this] True show ?thesis by simp
  next
    case False
    with Cons.prems have "distinct ns" and "ID c \<in> set ns" by auto
    from Cons.IH [OF this, of "i + 1"] False show ?thesis by simp
  qed
qed

lemma renumber_Position_irrelevant:
  "ID c \<in> set ns \<Longrightarrow> renumber ns i st (c\<lparr>Position := p\<rparr>) = renumber ns i st (c\<lparr>Position := q\<rparr>)"
proof (induction ns arbitrary: i)
  case Nil
  then show ?case by simp
next
  case (Cons n ns)
  show ?case
  proof (cases "ID c = n")
    case True
    then show ?thesis by simp
  next
    case False
    with Cons.prems have "ID c \<in> set ns" by simp
    from Cons.IH [OF this, of "i + 1"] False show ?thesis by simp
  qed
qed

lemma others_of_filter:
  "others_of cid st cards = filter (\<lambda>c. ID c \<noteq> cid \<and> Status c = st) cards"
  by (induction cards) auto

lemma clamp_pos_range: "0 \<le> clamp_pos p others \<and> clamp_pos p others \<le> int (length others)"
  by (simp add: clamp_pos_def Let_def)

lemma findCardIndex_from_list_update:
  "i < length cards \<Longrightarrow> ID c' = ID (cards ! i) \<Longrightarrow>
   findCardIndex_from k (cards[i := c']) cid = findCardIndex_from k cards cid"
proof (induction cards arbitrary: k i)
  case Nil
  then show ?case by simp
next
  case (Cons c cards)
  then show ?case by (cases i) auto
qed

lemma overwrite_ID [simp]: "ID (overwrite update c) = ID c"
  by (simp add: overwrite_def)

lemma findCardIndex_overwrite:
  "i < length cards \<Longrightarrow>
   findCardIndex (cards[i := overwrite update (cards ! i)]) cid = findCardIndex cards cid"
  by (simp add: findCardIndex_def findCardIndex_from_list_update)

lemma reposition_found:
  assumes "findCardIndex cards cid = int i"
  shows "reposition cid update cards =
     Inr (reassign
            (take (nat (clamp_pos (Position update) (others_of cid (Status update) cards)))
               (others_of cid (Status update) cards) @
             (cards ! i)\<lparr>Status := Status update\<rparr> #
             drop (nat (clamp_pos (Position update) (others_of cid (Status update) cards)))
               (others_of cid (Status update) cards))
            0 (Status update) cards)"
proof -
  let ?others = "others_of cid (Status update) cards"
  let ?pos = "clamp_pos (Position update) ?others"
  from findCardIndex_found(1) [OF assms] have i: "i < length cards" .
  from clamp_pos_range [of "Position update" ?others]
  have r: "0 \<le> ?pos" "?pos \<le> int (length ?others)" by simp_all
  from i have ia: "index_at cards (int i) = Inr (cards ! i)" by (simp add: index_at_def)
  from r have st: "slice_to ?others ?pos = Inr (take (nat ?pos) ?others)"
    by (simp add: slice_to_def)
  from r have sf: "slice_from ?others ?pos = Inr (drop (nat ?pos) ?others)"
    by (simp add: slice_from_def)
  have d: "\<not> ?pos < int (length ?others) \<Longrightarrow> drop (nat ?pos) ?others = []"
    by simp
  show ?thesis
    using assms ia st sf d
    by (simp add: reposition_def new_order_def Let_def)
qed

section \<open>The update in closed form\<close>

lemma filter_list_update_outside:
  "i < length xs \<Longrightarrow> \<not> P (xs ! i) \<Longrightarrow> \<not> P y \<Longrightarrow> filter P (xs[i := y]) = filter P xs"
proof (induction xs arbitrary: i)
  case Nil
  then show ?case by simp
next
  case (Cons x xs)
  then show ?case by (cases i) auto
qed

lemma others_of_overwrite:
  assumes "i < length cards" and "ID (cards ! i) = cid"
  shows "others_of cid st (cards[i := overwrite update (cards ! i)]) = others_of cid st cards"
  using assms by (simp add: others_of_filter filter_list_update_outside)

lemma update_cards_moved:
  assumes "findCardIndex cards cid = int i"
    and "Status (cards ! i) \<noteq> Status update \<or> Position (cards ! i) \<noteq> Position update"
  shows "update_cards cid update cards =
           Inr (map (renumber (moved_ids cid update cards) 0 (Status update))
                  (cards[i := overwrite update (cards ! i)]))"
proof -
  let ?cards1 = "cards[i := overwrite update (cards ! i)]"
  from findCardIndex_found [OF assms(1)]
  have i: "i < length cards" and c: "ID (cards ! i) = cid"
    and a: "apply_update cid update cards = (?cards1, Status (cards ! i), Position (cards ! i), True)"
    by simp_all
  from i assms(1) have f: "findCardIndex ?cards1 cid = int i"
    by (simp add: findCardIndex_overwrite)
  have o: "others_of cid (Status update) ?cards1 = others_of cid (Status update) cards"
    using i c by (rule others_of_overwrite)
  from i c have m: "ID (?cards1 ! i) = cid" by simp
  have "update_cards cid update cards = reposition cid update ?cards1"
    using a assms(2) by (auto simp: update_cards_def)
  also have "\<dots> = Inr (map (renumber (moved_ids cid update cards) 0 (Status update)) ?cards1)"
    unfolding reposition_found [OF f] reassign_map o using m
    by (simp add: moved_ids_def Let_def)
  finally show ?thesis .
qed

lemma update_cards_found:
  assumes "findCardIndex cards cid = int i"
  shows "\<exists>ns. update_cards cid update cards =
           Inr (map (renumber ns 0 (Status update)) (cards[i := overwrite update (cards ! i)]))"
proof (cases "Status (cards ! i) \<noteq> Status update \<or> Position (cards ! i) \<noteq> Position update")
  case True
  from update_cards_moved [OF assms True] show ?thesis by blast
next
  case False
  with findCardIndex_found(3) [OF assms, of update]
  have "update_cards cid update cards =
          Inr (map (renumber [] 0 (Status update)) (cards[i := overwrite update (cards ! i)]))"
    by (simp add: update_cards_def map_renumber_Nil)
  then show ?thesis by blast
qed

lemma create_cards_last: "create_cards now crd cards = cards @ [new_card now crd cards]"
  by (simp add: create_cards_def)


lemma update_cards_noop:
  assumes "findCardIndex cards cid = int i"
    and "Status update = Status (cards ! i)" and "Position update = Position (cards ! i)"
  shows "update_cards cid update cards =
           Inr (cards[i := (cards ! i)\<lparr>Title := Title update, Description := Description update\<rparr>])"
    and "fst (apply_update cid update cards) =
           cards[i := (cards ! i)\<lparr>Title := Title update, Description := Description update\<rparr>]"
proof -
  have "overwrite update (cards ! i) =
          (cards ! i)\<lparr>Title := Title update, Description := Description update\<rparr>"
    using assms(2,3) by (simp add: overwrite_def)
  with findCardIndex_found(3) [OF assms(1), of update] assms(2,3)
  show "update_cards cid update cards =
           Inr (cards[i := (cards ! i)\<lparr>Title := Title update, Description := Description update\<rparr>])"
    and "fst (apply_update cid update cards) =
           cards[i := (cards ! i)\<lparr>Title := Title update, Description := Description update\<rparr>]"
    by (simp_all add: update_cards_def)
qed


section \<open>Updates that do not move the card\<close>

text \<open>
  C6: when the request carries the status and the position the card already has, the
  repositioning is skipped: the result is the slice as the first loop left it, and every
  other card keeps all its fields, position and status included.
\<close>

theorem noop_update_leaves_others:
  assumes "findCardIndex cards cid = int i"
    and "Status update = Status (cards ! i)" and "Position update = Position (cards ! i)"
  shows "\<exists>cards'. update_cards cid update cards = Inr cards' \<and>
           cards' = fst (apply_update cid update cards) \<and>
           length cards' = length cards \<and>
           (\<forall>j < length cards. j \<noteq> i \<longrightarrow> cards' ! j = cards ! j) \<and>
           Status (cards' ! i) = Status (cards ! i) \<and>
           Position (cards' ! i) = Position (cards ! i)"
  using update_cards_noop [OF assms] findCardIndex_found(1) [OF assms(1)]
  by simp

theorem noop_update_leaves_others_witness:
  "findCardIndex
     [\<lparr>ID = ''1'', Title = ''a'', Description = [], Status = ''ToDo'', Position = 0\<rparr>,
      \<lparr>ID = ''2'', Title = ''b'', Description = [], Status = ''ToDo'', Position = 1\<rparr>] ''2'' = int 1 \<and>
   update_cards ''2''
     \<lparr>ID = [], Title = ''c'', Description = ''d'', Status = ''ToDo'', Position = 1\<rparr>
     [\<lparr>ID = ''1'', Title = ''a'', Description = [], Status = ''ToDo'', Position = 0\<rparr>,
      \<lparr>ID = ''2'', Title = ''b'', Description = [], Status = ''ToDo'', Position = 1\<rparr>] =
   Inr [\<lparr>ID = ''1'', Title = ''a'', Description = [], Status = ''ToDo'', Position = 0\<rparr>,
        \<lparr>ID = ''2'', Title = ''c'', Description = ''d'', Status = ''ToDo'', Position = 1\<rparr>]"
proof -
  let ?cards = "[\<lparr>ID = ''1'', Title = ''a'', Description = [], Status = ''ToDo'', Position = 0\<rparr>,
      \<lparr>ID = ''2'', Title = ''b'', Description = [], Status = ''ToDo'', Position = 1\<rparr>]"
  let ?u = "\<lparr>ID = [], Title = ''c'', Description = ''d'', Status = ''ToDo'', Position = 1\<rparr>"
  have f: "findCardIndex ?cards ''2'' = int 1" by (simp add: findCardIndex_def)
  have s: "Status ?u = Status (?cards ! 1)" by simp
  have p: "Position ?u = Position (?cards ! 1)" by simp
  from noop_update_leaves_others [OF f s p] f show ?thesis
    by (simp add: update_cards_def)
qed


text \<open>
  C10: in that same case the handler still overwrites the title and the description of
  the card with those of the request and still hands the whole board to \<open>SaveBoard\<close>.
\<close>

theorem noop_update_still_saves:
  assumes "LoadBoard unmarshal resp = Inr board"
    and "findCardIndex (Cards board) cid = int i"
    and "Status update = Status (Cards board ! i)"
    and "Position update = Position (Cards board ! i)"
  shows "saved (put_card unmarshal resp put_fails cid (Some update)) =
           Some (board\<lparr>Cards := (Cards board)
                   [i := (Cards board ! i)\<lparr>Title := Title update,
                                            Description := Description update\<rparr>]\<rparr>) \<and>
         code (put_card unmarshal resp put_fails cid (Some update)) =
           (if put_fails then 500 else 204)"
  using assms(1) update_cards_noop(1) [OF assms(2,3,4)]
  by (simp add: put_card_def save_and_answer_def SaveBoard_def)

theorem noop_update_still_saves_witness:
  "LoadBoard
     (\<lambda>d. Some \<lparr>Cards = [\<lparr>ID = ''7'', Title = ''old'', Description = ''text'',
                          Status = ''Doing'', Position = 0\<rparr>]\<rparr>)
     (Body ''doc'') =
     Inr \<lparr>Cards = [\<lparr>ID = ''7'', Title = ''old'', Description = ''text'', Status = ''Doing'',
                     Position = 0\<rparr>]\<rparr> \<and>
   findCardIndex
     [\<lparr>ID = ''7'', Title = ''old'', Description = ''text'', Status = ''Doing'',
       Position = 0\<rparr>] ''7'' = int 0 \<and>
   saved (put_card
     (\<lambda>d. Some \<lparr>Cards = [\<lparr>ID = ''7'', Title = ''old'', Description = ''text'',
                          Status = ''Doing'', Position = 0\<rparr>]\<rparr>)
     (Body ''doc'') False ''7''
     (Some \<lparr>ID = [], Title = ''new'', Description = ''more'', Status = ''Doing'',
            Position = 0\<rparr>)) =
     Some \<lparr>Cards = [\<lparr>ID = ''7'', Title = ''new'', Description = ''more'', Status = ''Doing'',
                      Position = 0\<rparr>]\<rparr>"
proof -
  let ?b = "\<lparr>Cards = [\<lparr>ID = ''7'', Title = ''old'', Description = ''text'',
                        Status = ''Doing'', Position = 0\<rparr>]\<rparr>"
  let ?u = "\<lparr>ID = [], Title = ''new'', Description = ''more'', Status = ''Doing'',
             Position = 0\<rparr>"
  have l: "LoadBoard (\<lambda>d. Some ?b) (Body ''doc'') = Inr ?b" by (simp add: LoadBoard_def)
  have f: "findCardIndex (Cards ?b) ''7'' = int 0" by (simp add: findCardIndex_def)
  have s: "Status ?u = Status (Cards ?b ! 0)" by simp
  have q: "Position ?u = Position (Cards ?b ! 0)" by simp
  from noop_update_still_saves [OF l f s q, of False] l f show ?thesis by simp
qed

section \<open>The status string\<close>

text \<open>
  C9: the status of a request body is taken as it is, whatever the string: the created
  card carries it, and after an update the card carries it, with the usual success
  answers (200 and 204) and no check against the four column names. The empty string of
  a body without status field is one such value.
\<close>

theorem status_taken_verbatim:
  assumes "LoadBoard unmarshal resp = Inr board"
  shows "Status (new_card now crd (Cards board)) = Status crd \<and>
         post_card unmarshal resp False now (Some crd) =
           \<lparr>code = 200, payload = CardJson (new_card now crd (Cards board)),
            saved = Some (board\<lparr>Cards := Cards board @ [new_card now crd (Cards board)]\<rparr>)\<rparr> \<and>
         (findCardIndex (Cards board) cid = int i \<longrightarrow>
            (\<exists>cards'. put_card unmarshal resp False cid (Some update) =
                \<lparr>code = 204, payload = NoPayload, saved = Some (board\<lparr>Cards := cards'\<rparr>)\<rparr> \<and>
              ID (cards' ! i) = cid \<and> Status (cards' ! i) = Status update))"
proof -
  have 1: "Status (new_card now crd (Cards board)) = Status crd"
    by (simp add: new_card_def)
  have 2: "post_card unmarshal resp False now (Some crd) =
           \<lparr>code = 200, payload = CardJson (new_card now crd (Cards board)),
            saved = Some (board\<lparr>Cards := Cards board @ [new_card now crd (Cards board)]\<rparr>)\<rparr>"
    using assms by (simp add: post_card_def save_and_answer_def SaveBoard_def create_cards_def)
  have 3: "\<exists>cards'. put_card unmarshal resp False cid (Some update) =
                \<lparr>code = 204, payload = NoPayload, saved = Some (board\<lparr>Cards := cards'\<rparr>)\<rparr> \<and>
              ID (cards' ! i) = cid \<and> Status (cards' ! i) = Status update"
    if f: "findCardIndex (Cards board) cid = int i"
  proof -
    let ?cards1 = "(Cards board)[i := overwrite update (Cards board ! i)]"
    from update_cards_found [OF f, of update] obtain ns where
      u: "update_cards cid update (Cards board) = Inr (map (renumber ns 0 (Status update)) ?cards1)"
      by blast
    from findCardIndex_found(1,2) [OF f]
    have i: "i < length (Cards board)" and c: "ID (Cards board ! i) = cid" by simp_all
    have s: "Status (?cards1 ! i) = Status update" using i by (simp add: overwrite_def)
    have "put_card unmarshal resp False cid (Some update) =
            \<lparr>code = 204, payload = NoPayload,
             saved = Some (board\<lparr>Cards := map (renumber ns 0 (Status update)) ?cards1\<rparr>)\<rparr>"
      using assms u by (simp add: put_card_def save_and_answer_def SaveBoard_def)
    moreover have "ID (map (renumber ns 0 (Status update)) ?cards1 ! i) = cid"
      using i c by simp
    moreover have "Status (map (renumber ns 0 (Status update)) ?cards1 ! i) = Status update"
      using i s by (simp add: renumber_Status)
    ultimately show ?thesis by blast
  qed
  from 1 2 3 show ?thesis by blast
qed

theorem status_taken_verbatim_witness:
  "LoadBoard
     (\<lambda>d. Some \<lparr>Cards = [\<lparr>ID = ''7'', Title = ''t'', Description = [], Status = ''ToDo'',
                          Position = 0\<rparr>]\<rparr>)
     (Body ''doc'') =
     Inr \<lparr>Cards = [\<lparr>ID = ''7'', Title = ''t'', Description = [], Status = ''ToDo'',
                     Position = 0\<rparr>]\<rparr> \<and>
   findCardIndex
     [\<lparr>ID = ''7'', Title = ''t'', Description = [], Status = ''ToDo'', Position = 0\<rparr>]
     ''7'' = int 0 \<and>
   (\<exists>cards'.
      put_card
        (\<lambda>d. Some \<lparr>Cards = [\<lparr>ID = ''7'', Title = ''t'', Description = [], Status = ''ToDo'',
                             Position = 0\<rparr>]\<rparr>)
        (Body ''doc'') False ''7''
        (Some \<lparr>ID = [], Title = ''t'', Description = [], Status = [], Position = 0\<rparr>) =
        \<lparr>code = 204, payload = NoPayload,
         saved = Some \<lparr>Cards = cards'\<rparr>\<rparr> \<and>
      Status (cards' ! 0) = [])"
proof -
  let ?b = "\<lparr>Cards = [\<lparr>ID = ''7'', Title = ''t'', Description = [], Status = ''ToDo'',
                        Position = 0\<rparr>]\<rparr>"
  let ?u = "\<lparr>ID = [], Title = ''t'', Description = [], Status = [], Position = 0\<rparr>"
  have l: "LoadBoard (\<lambda>d. Some ?b) (Body ''doc'') = Inr ?b" by (simp add: LoadBoard_def)
  have f: "findCardIndex (Cards ?b) ''7'' = int 0" by (simp add: findCardIndex_def)
  from status_taken_verbatim [OF l, of 1 ?u "''7''" 0 ?u] f
  have "\<exists>cards'. put_card (\<lambda>d. Some ?b) (Body ''doc'') False ''7'' (Some ?u) =
          \<lparr>code = 204, payload = NoPayload, saved = Some \<lparr>Cards = cards'\<rparr>\<rparr> \<and>
          Status (cards' ! 0) = []"
    by auto
  with l f show ?thesis by simp
qed

section \<open>Evaluating concrete boards\<close>

lemmas run_eval =
  run_def create_cards_def new_card_def generateID_def digits.simps digit_def go_int_def
  delete_cards_def update_cards_def reposition_def new_order_def findCardIndex_def
  clamp_pos_def index_at_def slice_to_def slice_from_def Let_def

lemma max_position_Max:
  "max_position st m cards = Max (insert m (Position ` set (column st cards)))"
proof (induction cards arbitrary: m)
  case Nil
  then show ?case by (simp add: column_def)
next
  case (Cons c cards)
  let ?S = "Position ` set (column st cards)"
  have fin: "finite ?S" by simp
  show ?case
  proof (cases "Status c = st")
    case True
    have "Max (insert (max m (Position c)) ?S) = Max (insert m (insert (Position c) ?S))"
    proof (cases "?S = {}")
      case True
      then show ?thesis by (simp add: max.commute)
    next
      case False
      with fin show ?thesis by (simp add: max.assoc)
    qed
    moreover have "(if Position c > m then Position c else m) = max m (Position c)"
      by (simp add: max_def)
    ultimately show ?thesis
      using True Cons.IH [of "max m (Position c)"] by (simp add: column_def)
  next
    case False
    then show ?thesis using Cons.IH [of m] by (simp add: column_def)
  qed
qed

lemma go_int_id: "- (2 ^ 63) \<le> x \<Longrightarrow> x < 2 ^ 63 \<Longrightarrow> go_int x = x"
  by (simp add: go_int_def)



lemma go_int_range: "- (2 ^ 63) \<le> go_int x \<and> go_int x < 2 ^ 63"
proof -
  have "0 \<le> (x + 2 ^ 63) mod 2 ^ 64" by simp
  moreover have "(x + 2 ^ 63) mod 2 ^ 64 < (2 ^ 64 :: int)" by simp
  ultimately show ?thesis by (simp add: go_int_def)
qed

lemma new_card_Position:
  "Position (new_card now crd cards) =
     go_int (Max (insert (- 1) (Position ` set (column (Status crd) cards))) + 1)"
  by (simp add: new_card_def max_position_Max)

lemma new_card_Position_empty:
  "column (Status crd) cards = [] \<Longrightarrow> Position (new_card now crd cards) = 0"
  by (simp add: new_card_Position go_int_def)

lemma new_card_Position_iff:
  assumes ne: "column (Status crd) cards \<noteq> []"
  shows "Position (new_card now crd cards) = Max (Position ` set (column (Status crd) cards)) + 1
     \<longleftrightarrow> - 1 \<le> Max (Position ` set (column (Status crd) cards)) \<and>
         Max (Position ` set (column (Status crd) cards)) < 2 ^ 63 - 1"
proof -
  let ?S = "Position ` set (column (Status crd) cards)"
  let ?M = "Max ?S"
  from ne have "?S \<noteq> {}" by simp
  then have mx: "Max (insert (- 1) ?S) = max (- 1) ?M" by simp
  have p: "Position (new_card now crd cards) = go_int (max (- 1) ?M + 1)"
    by (simp add: new_card_Position mx)
  consider "?M < - 1" | "- 1 \<le> ?M" "?M < 2 ^ 63 - 1" | "2 ^ 63 - 1 \<le> ?M" by linarith
  then show ?thesis
  proof cases
    case 1
    then have "max (- 1) ?M = - 1" by simp
    with p have "Position (new_card now crd cards) = 0" by (simp add: go_int_def)
    with 1 show ?thesis by simp
  next
    case 2
    then have "max (- 1) ?M = ?M" by simp
    moreover from 2 have "go_int (?M + 1) = ?M + 1" by (intro go_int_id) simp_all
    ultimately show ?thesis using p 2 by simp
  next
    case 3
    from go_int_range [of "max (- 1) ?M + 1"] p
    have "Position (new_card now crd cards) < 2 ^ 63" by simp
    with 3 show ?thesis by simp
  qed
qed

lemma new_card_after_column:
  assumes b: "\<forall>c \<in> set (column (Status crd) cards). Position c < 2 ^ 63 - 1"
  shows "\<forall>c \<in> set (column (Status crd) cards). Position c < Position (new_card now crd cards)"
proof
  fix c assume c: "c \<in> set (column (Status crd) cards)"
  let ?S = "Position ` set (column (Status crd) cards)"
  let ?M = "Max ?S"
  from c have ne: "?S \<noteq> {}" by auto
  then have mx: "Max (insert (- 1) ?S) = max (- 1) ?M" by simp
  from ne have "?M \<in> ?S" by (intro Max_in) simp_all
  with b have ub: "?M < 2 ^ 63 - 1" by auto
  then have "go_int (max (- 1) ?M + 1) = max (- 1) ?M + 1" by (intro go_int_id) simp_all
  then have p: "Position (new_card now crd cards) = max (- 1) ?M + 1"
    by (simp add: new_card_Position mx)
  from c have "Position c \<le> ?M" by simp
  with p show "Position c < Position (new_card now crd cards)" by simp
qed

section \<open>Indices and generated ids\<close>

lemma first_index_less: "x \<in> set xs \<Longrightarrow> first_index xs x < length xs"
  by (induction xs) auto

lemma first_index_nth: "x \<in> set xs \<Longrightarrow> xs ! first_index xs x = x"
  by (induction xs) auto

lemma first_index_of_nth: "distinct xs \<Longrightarrow> k < length xs \<Longrightarrow> first_index xs (xs ! k) = k"
proof (induction xs arbitrary: k)
  case Nil
  then show ?case by simp
next
  case (Cons x xs)
  show ?case
  proof (cases k)
    case 0
    then show ?thesis by simp
  next
    case (Suc k')
    with Cons.prems have k': "k' < length xs" and d: "distinct xs" and x: "x \<notin> set xs"
      by simp_all
    from k' x have "xs ! k' \<noteq> x" by (metis nth_mem)
    moreover from Cons.IH [OF d k'] have "first_index xs (xs ! k') = k'" .
    ultimately show ?thesis using Suc by simp
  qed
qed

lemma first_index_inj: "inj_on (first_index xs) (set xs)"
proof (rule inj_onI)
  fix x y assume "x \<in> set xs" "y \<in> set xs" "first_index xs x = first_index xs y"
  then show "x = y" by (metis first_index_nth)
qed

lemma first_index_image: "distinct xs \<Longrightarrow> first_index xs ` set xs = {0 ..< length xs}"
proof (intro equalityI subsetI)
  fix k assume "k \<in> first_index xs ` set xs"
  then show "k \<in> {0 ..< length xs}" by (auto simp: first_index_less)
next
  fix k assume d: "distinct xs" and "k \<in> {0 ..< length xs}"
  then have k: "k < length xs" by simp
  with d have "first_index xs (xs ! k) = k" by (rule first_index_of_nth)
  moreover from k have "xs ! k \<in> set xs" by simp
  ultimately show "k \<in> first_index xs ` set xs" by force
qed

lemma overwrite_Status [simp]: "Status (overwrite update c) = Status update"
  by (simp add: overwrite_def)

lemma map_ID_overwrite:
  "map ID (cards[i := overwrite update (cards ! i)]) = map ID cards"
proof (cases "i < length cards")
  case True
  then have "(map ID cards)[i := ID (cards ! i)] = (map ID cards)[i := map ID cards ! i]"
    by simp
  then show ?thesis by (simp add: map_update)
next
  case False
  then have "length cards \<le> i" by simp
  then show ?thesis by (simp only: list_update_beyond)
qed


lemma digit_value_digit: "d < 10 \<Longrightarrow> digit_value (digit d) = d"
proof -
  assume d: "d < 10"
  have "distinct ''0123456789''" by simp
  moreover from d have "d < length ''0123456789''" by simp
  ultimately have "first_index ''0123456789'' (''0123456789'' ! d) = d"
    by (rule first_index_of_nth)
  then show ?thesis by (simp only: digit_value_def digit_def)
qed

lemma number_of_snoc: "number_of (s @ [c]) = 10 * number_of s + digit_value c"
  by (simp add: number_of_def)

lemma number_of_digits: "number_of (digits n) = n"
proof (induction n rule: digits.induct)
  case (1 n)
  show ?case
  proof (cases "n < 10")
    case True
    then have "digits n = [digit n]" by (simp add: digits.simps)
    with True show ?thesis by (simp add: number_of_def digit_value_digit)
  next
    case False
    then have "digits n = digits (n div 10) @ [digit (n mod 10)]" by (subst digits.simps) simp
    moreover have "digit_value (digit (n mod 10)) = n mod 10" by (rule digit_value_digit) simp
    ultimately show ?thesis using "1.IH" [OF False] by (simp add: number_of_snoc)
  qed
qed

lemma digits_inj: "digits m = digits n \<Longrightarrow> m = n"
  by (metis number_of_digits)

lemma digit_in_range: "d < 10 \<Longrightarrow> digit d \<in> set ''0123456789''"
proof -
  assume "d < 10"
  then have "d < length ''0123456789''" by simp
  then have "''0123456789'' ! d \<in> set ''0123456789''" by (rule nth_mem)
  then show ?thesis by (simp only: digit_def)
qed

lemma digits_chars: "set (digits n) \<subseteq> set ''0123456789''"
proof (induction n rule: digits.induct)
  case (1 n)
  show ?case
  proof (cases "n < 10")
    case True
    then have "digits n = [digit n]" by (simp add: digits.simps)
    with digit_in_range [OF True] show ?thesis by simp
  next
    case False
    then have e: "digits n = digits (n div 10) @ [digit (n mod 10)]" by (subst digits.simps) simp
    have "digit (n mod 10) \<in> set ''0123456789''" by (rule digit_in_range) simp
    with "1.IH" [OF False] show ?thesis unfolding e by simp
  qed
qed

lemma digits_no_minus: "CHR ''-'' \<notin> set (digits n)"
proof
  assume "CHR ''-'' \<in> set (digits n)"
  with digits_chars [of n] have "CHR ''-'' \<in> set ''0123456789''" by blast
  then show False by simp
qed

lemma generateID_inj: "generateID a = generateID b \<Longrightarrow> a = b"
proof -
  assume e: "generateID a = generateID b"
  consider "a < 0" "b < 0" | "0 \<le> a" "0 \<le> b" | "a < 0" "0 \<le> b" | "0 \<le> a" "b < 0"
    by linarith
  then show ?thesis
  proof cases
    case 1
    with e have "digits (nat (- a)) = digits (nat (- b))" by (simp add: generateID_def)
    then have "nat (- a) = nat (- b)" by (rule digits_inj)
    with 1 show ?thesis by simp
  next
    case 2
    with e have "digits (nat a) = digits (nat b)" by (simp add: generateID_def)
    then have "nat a = nat b" by (rule digits_inj)
    with 2 show ?thesis by simp
  next
    case 3
    with e have "CHR ''-'' # digits (nat (- a)) = digits (nat b)" by (simp add: generateID_def)
    then have "CHR ''-'' \<in> set (digits (nat b))" by (metis list.set_intros(1))
    with digits_no_minus show ?thesis by blast
  next
    case 4
    with e have "digits (nat a) = CHR ''-'' # digits (nat (- b))" by (simp add: generateID_def)
    then have "CHR ''-'' \<in> set (digits (nat a))" by (metis list.set_intros(1))
    with digits_no_minus show ?thesis by blast
  qed
qed

lemma step_ids:
  "ID ` set (step cards r) \<subseteq>
     ID ` set cards \<union> (case r of Create now crd \<Rightarrow> {generateID now} | _ \<Rightarrow> {})"
proof (cases r)
  case (Create now crd)
  then show ?thesis by (auto simp: create_cards_def new_card_def)
next
  case (Update cid update)
  show ?thesis
  proof (cases "cid \<in> ID ` set cards")
    case False
    with Update show ?thesis by (simp add: update_cards_absent)
  next
    case True
    from findCardIndex_present [OF True] obtain i where f: "findCardIndex cards cid = int i"
      by blast
    from update_cards_found [OF f, of update] obtain ns where
      "update_cards cid update cards =
         Inr (map (renumber ns 0 (Status update)) (cards[i := overwrite update (cards ! i)]))"
      by blast
    moreover have "ID ` set (map (renumber ns 0 (Status update))
        (cards[i := overwrite update (cards ! i)])) = ID ` set cards"
      using map_ID_overwrite [of cards i update]
      by (metis (no_types, lifting) list.map_comp map_eq_conv o_apply renumber_ID set_map)
    ultimately show ?thesis using Update by simp
  qed
next
  case (Delete cid)
  then show ?thesis by (auto simp: delete_cards_def remove_id_filter Let_def)
qed

lemma foldl_step_ids:
  "ID ` set (foldl step cards reqs) \<subseteq>
     ID ` set cards \<union> {generateID now | now crd. Create now crd \<in> set reqs}"
proof (induction reqs arbitrary: cards)
  case Nil
  then show ?case by simp
next
  case (Cons r reqs)
  define G where "G rs = {generateID now | now crd. Create now crd \<in> set rs}" for rs
  have 1: "ID ` set (step cards r) \<subseteq> ID ` set cards \<union> G (r # reqs)"
    using step_ids [of cards r] by (cases r) (auto simp: G_def)
  have 2: "G reqs \<subseteq> G (r # reqs)" by (auto simp: G_def)
  from Cons.IH [of "step cards r"]
  have 3: "ID ` set (foldl step (step cards r) reqs) \<subseteq> ID ` set (step cards r) \<union> G reqs"
    by (simp add: G_def)
  from 1 2 3 have "ID ` set (foldl step (step cards r) reqs) \<subseteq> ID ` set cards \<union> G (r # reqs)"
    by blast
  then show ?case by (simp add: G_def)
qed

lemma run_fresh:
  assumes "\<forall>now' crd'. Create now' crd' \<in> set reqs \<longrightarrow> now' \<noteq> now"
  shows "generateID now \<notin> ID ` set (run reqs)"
proof
  assume "generateID now \<in> ID ` set (run reqs)"
  with foldl_step_ids [of "[]" reqs] obtain now' crd'
    where "Create now' crd' \<in> set reqs" "generateID now = generateID now'"
    by (auto simp: run_def)
  with generateID_inj assms show False by metis
qed

section \<open>Creating a card\<close>





section \<open>The new order of the target column\<close>

lemma new_order_found:
  assumes "findCardIndex cards cid = int i"
  shows "new_order cid update cards (int i) =
     Inr (take (nat (clamp_pos (Position update) (others_of cid (Status update) cards)))
               (others_of cid (Status update) cards) @
             (cards ! i)\<lparr>Status := Status update\<rparr> #
             drop (nat (clamp_pos (Position update) (others_of cid (Status update) cards)))
               (others_of cid (Status update) cards))"
proof -
  let ?others = "others_of cid (Status update) cards"
  let ?pos = "clamp_pos (Position update) ?others"
  from findCardIndex_found(1) [OF assms] have i: "i < length cards" .
  from clamp_pos_range [of "Position update" ?others]
  have r: "0 \<le> ?pos" "?pos \<le> int (length ?others)" by simp_all
  from i have ia: "index_at cards (int i) = Inr (cards ! i)" by (simp add: index_at_def)
  from r have st: "slice_to ?others ?pos = Inr (take (nat ?pos) ?others)"
    by (simp add: slice_to_def)
  from r have sf: "slice_from ?others ?pos = Inr (drop (nat ?pos) ?others)"
    by (simp add: slice_from_def)
  have d: "\<not> ?pos < int (length ?others) \<Longrightarrow> drop (nat ?pos) ?others = []"
    by simp
  show ?thesis
    using ia st sf d by (simp add: new_order_def Let_def)
qed

lemma new_order_ids:
  assumes "findCardIndex cards cid = int i"
  shows "\<exists>newOrder. new_order cid update cards (int i) = Inr newOrder \<and>
           map ID newOrder = moved_ids cid update cards"
  using new_order_found [OF assms, of update] findCardIndex_found(2) [OF assms]
  by (simp add: moved_ids_def Let_def)

lemma moved_ids_set:
  "set (moved_ids cid update cards) = insert cid (ID ` set (others_of cid (Status update) cards))"
proof -
  let ?others = "others_of cid (Status update) cards"
  let ?n = "nat (clamp_pos (Position update) ?others)"
  have "set (take ?n ?others) \<union> set (drop ?n ?others) = set ?others"
    by (metis append_take_drop_id set_append)
  then have "ID ` set (take ?n ?others) \<union> ID ` set (drop ?n ?others) = ID ` set ?others"
    by (metis image_Un)
  then show ?thesis by (auto simp: moved_ids_def Let_def)
qed

lemma moved_ids_length:
  "length (moved_ids cid update cards) = Suc (length (others_of cid (Status update) cards))"
  using clamp_pos_range [of "Position update" "others_of cid (Status update) cards"]
  by (simp add: moved_ids_def Let_def)

lemma moved_ids_overwrite:
  assumes "findCardIndex cards cid = int i"
  shows "moved_ids cid update (cards[i := overwrite update (cards ! i)]) = moved_ids cid update cards"
  using findCardIndex_found(1,2) [OF assms]
  by (simp add: moved_ids_def others_of_overwrite)

lemma moved_ids_subset:
  assumes f: "findCardIndex cards cid = int i"
  shows "set (moved_ids cid update cards) \<subseteq> ID ` set (cards[i := overwrite update (cards ! i)])"
proof -
  from findCardIndex_found(1,2) [OF f] have i: "i < length cards" and ci: "ID (cards ! i) = cid"
    by simp_all
  have "ID ` set (cards[i := overwrite update (cards ! i)]) = ID ` set cards"
    using map_ID_overwrite [of cards i update] by (metis set_map)
  moreover from i ci have "cid \<in> ID ` set cards" by (metis image_eqI nth_mem)
  moreover have "ID ` set (others_of cid (Status update) cards) \<subseteq> ID ` set cards"
    by (auto simp: others_of_filter)
  ultimately show ?thesis by (simp add: moved_ids_set)
qed


section \<open>Clamping the requested position\<close>

lemma update_cards_never_panics: "update_cards cid update cards \<noteq> Inl IndexOutOfRange"
proof (cases "cid \<in> ID ` set cards")
  case True
  from findCardIndex_present [OF this] obtain i where "findCardIndex cards cid = int i" by blast
  from update_cards_found [OF this, of update] show ?thesis by auto
next
  case False
  then show ?thesis by (simp add: update_cards_absent)
qed

lemma clamp_pos_below: "p < 0 \<Longrightarrow> clamp_pos p others = clamp_pos 0 others"
  by (simp add: clamp_pos_def)

lemma clamp_pos_above:
  "int (length others) \<le> k \<Longrightarrow> k \<le> p \<Longrightarrow> clamp_pos p others = clamp_pos k others"
  by (simp add: clamp_pos_def)

lemma others_of_Position [simp]:
  "others_of cid (Status (update\<lparr>Position := p\<rparr>)) cards = others_of cid (Status update) cards"
  by simp

lemma moved_ids_clamp:
  assumes "clamp_pos p (others_of cid (Status update) cards) =
           clamp_pos q (others_of cid (Status update) cards)"
  shows "moved_ids cid (update\<lparr>Position := p\<rparr>) cards = moved_ids cid (update\<lparr>Position := q\<rparr>) cards"
  using assms by (simp add: moved_ids_def)

lemma overwrite_Position:
  "overwrite (update\<lparr>Position := p\<rparr>) c = (overwrite update c)\<lparr>Position := p\<rparr>"
  by (simp add: overwrite_def)

lemma update_cards_same_clamp:
  assumes f: "findCardIndex cards cid = int i"
    and tp: "Status (cards ! i) \<noteq> Status update \<or> Position (cards ! i) \<noteq> p"
    and tq: "Status (cards ! i) \<noteq> Status update \<or> Position (cards ! i) \<noteq> q"
    and c: "clamp_pos p (others_of cid (Status update) cards) =
            clamp_pos q (others_of cid (Status update) cards)"
  shows "update_cards cid (update\<lparr>Position := p\<rparr>) cards =
         update_cards cid (update\<lparr>Position := q\<rparr>) cards"
proof -
  let ?ids = "moved_ids cid (update\<lparr>Position := q\<rparr>) cards"
  let ?st = "Status update"
  let ?c = "overwrite update (cards ! i)"
  from findCardIndex_found(1,2) [OF f] have i: "i < length cards" and ci: "ID (cards ! i) = cid"
    by simp_all
  have "cid \<in> set ?ids" by (simp add: moved_ids_set)
  with ci have "ID ?c \<in> set ?ids" by simp
  from renumber_Position_irrelevant [OF this, of 0 ?st p q]
  have r: "renumber ?ids 0 ?st (?c\<lparr>Position := p\<rparr>) = renumber ?ids 0 ?st (?c\<lparr>Position := q\<rparr>)" .
  have "update_cards cid (update\<lparr>Position := p\<rparr>) cards =
          Inr (map (renumber ?ids 0 ?st) (cards[i := ?c\<lparr>Position := p\<rparr>]))"
    using update_cards_moved [OF f, of "update\<lparr>Position := p\<rparr>"] tp moved_ids_clamp [OF c]
    by (simp add: overwrite_Position)
  also have "\<dots> = Inr (map (renumber ?ids 0 ?st) (cards[i := ?c\<lparr>Position := q\<rparr>]))"
    using r by (simp add: map_update)
  also have "\<dots> = update_cards cid (update\<lparr>Position := q\<rparr>) cards"
    using update_cards_moved [OF f, of "update\<lparr>Position := q\<rparr>"] tq
    by (simp add: overwrite_Position)
  finally show ?thesis .
qed

lemma clamp_pos_explicit:
  "clamp_pos p others =
     (if p < 0 then 0 else if int (length others) < p then int (length others) else p)"
  by (simp add: clamp_pos_def)

lemma renumber_once:
  "ID c = x \<Longrightarrow> x \<notin> set xs \<Longrightarrow> x \<notin> set ys \<Longrightarrow>
   renumber (xs @ x # ys) k st c = c\<lparr>Position := k + int (length xs), Status := st\<rparr>"
proof (induction xs arbitrary: k)
  case Nil
  then have "ID (c\<lparr>Position := k, Status := st\<rparr>) \<notin> set ys" by simp
  from renumber_absent [OF this] Nil show ?case by simp
next
  case (Cons a xs)
  then have "ID c \<noteq> a" by auto
  with Cons.IH [of "k + 1"] Cons.prems show ?case by simp
qed

lemma moved_card_lands:
  assumes f: "findCardIndex cards cid = int i"
    and m: "Status (cards ! i) \<noteq> Status update \<or> Position (cards ! i) \<noteq> Position update"
  shows "\<exists>cards'. update_cards cid update cards = Inr cards' \<and> length cards' = length cards \<and>
           cards' ! i =
             (cards ! i)\<lparr>Title := Title update, Description := Description update,
               Status := Status update,
               Position := clamp_pos (Position update) (others_of cid (Status update) cards)\<rparr>"
proof -
  let ?st = "Status update"
  let ?others = "others_of cid ?st cards"
  let ?n = "nat (clamp_pos (Position update) ?others)"
  let ?cards1 = "cards[i := overwrite update (cards ! i)]"
  let ?ids = "moved_ids cid update cards"
  from findCardIndex_found(1,2) [OF f] have i: "i < length cards" and ci: "ID (cards ! i) = cid"
    by simp_all
  from clamp_pos_range [of "Position update" ?others]
  have r: "0 \<le> clamp_pos (Position update) ?others"
    "clamp_pos (Position update) ?others \<le> int (length ?others)" by simp_all
  have no: "cid \<notin> ID ` set ?others" by (auto simp: others_of_filter)
  have "set (take ?n ?others) \<subseteq> set ?others" by (rule set_take_subset)
  with no have 1: "cid \<notin> set (map ID (take ?n ?others))" by auto
  have "set (drop ?n ?others) \<subseteq> set ?others" by (rule set_drop_subset)
  with no have 2: "cid \<notin> set (map ID (drop ?n ?others))" by auto
  have ic: "ID (overwrite update (cards ! i)) = cid" using ci by simp
  from renumber_once [OF ic 1 2, of 0 ?st] r
  have "renumber ?ids 0 ?st (overwrite update (cards ! i)) =
          (overwrite update (cards ! i))\<lparr>Position := clamp_pos (Position update) ?others,
            Status := ?st\<rparr>"
    by (simp add: moved_ids_def Let_def)
  with update_cards_moved [OF f m] i show ?thesis by (simp add: overwrite_def)
qed

lemma update_noop_nth:
  assumes f: "findCardIndex cards cid = int i"
    and s: "Status (cards ! i) = Status update" and q: "Position (cards ! i) = Position update"
  shows "update_cards cid update cards =
           Inr (cards[i := (cards ! i)\<lparr>Title := Title update,
                                       Description := Description update\<rparr>])"
  using update_cards_noop(1) [OF f] s q by simp

lemma boards_equal_iff:
  assumes f: "findCardIndex cards cid = int i"
    and s: "Status (cards ! i) = Status update" and q: "Position (cards ! i) = Position update"
    and l: "length cards' = length cards"
    and c: "cards' ! i = (cards ! i)\<lparr>Title := Title update, Description := Description update,
              Status := Status update, Position := n\<rparr>"
  shows "update_cards cid update cards = Inr cards' \<longleftrightarrow>
           n = Position update \<and> (\<forall>j < length cards. j \<noteq> i \<longrightarrow> cards' ! j = cards ! j)"
proof -
  let ?c0 = "(cards ! i)\<lparr>Title := Title update, Description := Description update\<rparr>"
  from findCardIndex_found(1) [OF f] have i: "i < length cards" .
  have u: "update_cards cid update cards = Inr (cards[i := ?c0])"
    by (rule update_noop_nth [OF f s q])
  have ci: "cards' ! i = ?c0\<lparr>Position := n\<rparr>" using c s by simp
  have p0: "Position ?c0 = Position update" using q by simp
  show ?thesis
  proof
    assume "update_cards cid update cards = Inr cards'"
    with u have e: "cards' = cards[i := ?c0]" by simp
    with i have "cards' ! i = ?c0" by simp
    with ci p0 have "n = Position update" by (metis Card.select_convs(5) Card.surjective Card.update_convs(5))
    moreover from e have "\<forall>j < length cards. j \<noteq> i \<longrightarrow> cards' ! j = cards ! j" by simp
    ultimately show "n = Position update \<and> (\<forall>j < length cards. j \<noteq> i \<longrightarrow> cards' ! j = cards ! j)"
      by simp
  next
    assume a: "n = Position update \<and> (\<forall>j < length cards. j \<noteq> i \<longrightarrow> cards' ! j = cards ! j)"
    with ci p0 have "cards' ! i = ?c0" by simp
    with a l i have "cards' = cards[i := ?c0]"
      by (intro nth_equalityI) (auto simp: nth_list_update)
    with u show "update_cards cid update cards = Inr cards'" by simp
  qed
qed

section \<open>Out-of-range positions\<close>

text \<open>
  Requesting position \<open>-5\<close> is not always the same as requesting position 0, nor is
  requesting 1000 always the same as requesting the size of the column. After three creates
  and the deletion of the middle card the column holds the cards 1 and 3 at the positions
  0 and 2, in this order in the slice. Card 1 holds position 0: the request for \<open>-5\<close>
  triggers the repositioning, which renumbers the column and brings card 3 to position 1,
  while the request for 0 names the status and the position the card has and is skipped.
  Likewise for card 3 at position 2: the request for 1000 renumbers the column, the
  request for 2 is skipped.
\<close>

theorem boundary_request_counterexample:
  "run [Create 1 \<lparr>ID = [], Title = ''a'', Description = [], Status = ''ToDo'', Position = 0\<rparr>,
        Create 2 \<lparr>ID = [], Title = ''b'', Description = [], Status = ''ToDo'', Position = 0\<rparr>,
        Create 3 \<lparr>ID = [], Title = ''c'', Description = [], Status = ''ToDo'', Position = 0\<rparr>,
        Delete ''2''] =
     [\<lparr>ID = ''1'', Title = ''a'', Description = [], Status = ''ToDo'', Position = 0\<rparr>,
      \<lparr>ID = ''3'', Title = ''c'', Description = [], Status = ''ToDo'', Position = 2\<rparr>] \<and>
   update_cards ''1''
     \<lparr>ID = [], Title = ''a'', Description = [], Status = ''ToDo'', Position = - 5\<rparr>
     [\<lparr>ID = ''1'', Title = ''a'', Description = [], Status = ''ToDo'', Position = 0\<rparr>,
      \<lparr>ID = ''3'', Title = ''c'', Description = [], Status = ''ToDo'', Position = 2\<rparr>] =
     Inr [\<lparr>ID = ''1'', Title = ''a'', Description = [], Status = ''ToDo'', Position = 0\<rparr>,
          \<lparr>ID = ''3'', Title = ''c'', Description = [], Status = ''ToDo'', Position = 1\<rparr>] \<and>
   update_cards ''1''
     \<lparr>ID = [], Title = ''a'', Description = [], Status = ''ToDo'', Position = 0\<rparr>
     [\<lparr>ID = ''1'', Title = ''a'', Description = [], Status = ''ToDo'', Position = 0\<rparr>,
      \<lparr>ID = ''3'', Title = ''c'', Description = [], Status = ''ToDo'', Position = 2\<rparr>] =
     Inr [\<lparr>ID = ''1'', Title = ''a'', Description = [], Status = ''ToDo'', Position = 0\<rparr>,
          \<lparr>ID = ''3'', Title = ''c'', Description = [], Status = ''ToDo'', Position = 2\<rparr>] \<and>
   update_cards ''3''
     \<lparr>ID = [], Title = ''c'', Description = [], Status = ''ToDo'', Position = 1000\<rparr>
     [\<lparr>ID = ''1'', Title = ''a'', Description = [], Status = ''ToDo'', Position = 0\<rparr>,
      \<lparr>ID = ''3'', Title = ''c'', Description = [], Status = ''ToDo'', Position = 2\<rparr>] =
     Inr [\<lparr>ID = ''1'', Title = ''a'', Description = [], Status = ''ToDo'', Position = 0\<rparr>,
          \<lparr>ID = ''3'', Title = ''c'', Description = [], Status = ''ToDo'', Position = 1\<rparr>] \<and>
   update_cards ''3''
     \<lparr>ID = [], Title = ''c'', Description = [], Status = ''ToDo'', Position = 2\<rparr>
     [\<lparr>ID = ''1'', Title = ''a'', Description = [], Status = ''ToDo'', Position = 0\<rparr>,
      \<lparr>ID = ''3'', Title = ''c'', Description = [], Status = ''ToDo'', Position = 2\<rparr>] =
     Inr [\<lparr>ID = ''1'', Title = ''a'', Description = [], Status = ''ToDo'', Position = 0\<rparr>,
          \<lparr>ID = ''3'', Title = ''c'', Description = [], Status = ''ToDo'', Position = 2\<rparr>]"
  by (simp add: run_eval)


text \<open>
  C3 (amended): for every update that triggers the repositioning, the requested position,
  any integer, never makes the update fail, and the card lands at position 0 when the
  request is negative, at \<open>len(others)\<close> when the request is larger than that, and at the
  requested position otherwise. A negative request then gives the same board as the
  request for position 0, and a request \<open>p\<close> at or above a bound \<open>k \<ge> len(others)\<close> the same board
  as the request for \<open>k\<close>, whenever that boundary request triggers the repositioning too.
  When the boundary request names the status and the position the card already has, it is
  skipped, and the two boards are equal exactly when the out-of-range request has left
  every other card as it was (and, for the upper bound, \<open>k = len(others)\<close>).
\<close>

theorem clamped_position_decides:
  assumes f: "findCardIndex cards cid = int i"
    and tp: "Status (cards ! i) \<noteq> Status update \<or> Position (cards ! i) \<noteq> p"
  shows "\<exists>cards'.
    update_cards cid (update\<lparr>Position := p\<rparr>) cards = Inr cards' \<and>
    ID (cards' ! i) = cid \<and> Status (cards' ! i) = Status update \<and>
    Position (cards' ! i) =
      (if p < 0 then 0
       else if int (length (filter (\<lambda>c. ID c \<noteq> cid \<and> Status c = Status update) cards)) < p
            then int (length (filter (\<lambda>c. ID c \<noteq> cid \<and> Status c = Status update) cards))
            else p) \<and>
    (p < 0 \<longrightarrow>
       (if Status (cards ! i) = Status update \<and> Position (cards ! i) = 0
        then update_cards cid (update\<lparr>Position := 0\<rparr>) cards = Inr cards' \<longleftrightarrow>
               (\<forall>j < length cards. j \<noteq> i \<longrightarrow> cards' ! j = cards ! j)
        else update_cards cid (update\<lparr>Position := 0\<rparr>) cards = Inr cards')) \<and>
    (int (length (filter (\<lambda>c. ID c \<noteq> cid \<and> Status c = Status update) cards)) \<le> k \<and> k \<le> p \<longrightarrow>
       (if Status (cards ! i) = Status update \<and> Position (cards ! i) = k
        then update_cards cid (update\<lparr>Position := k\<rparr>) cards = Inr cards' \<longleftrightarrow>
               k = int (length (filter (\<lambda>c. ID c \<noteq> cid \<and> Status c = Status update) cards)) \<and>
               (\<forall>j < length cards. j \<noteq> i \<longrightarrow> cards' ! j = cards ! j)
        else update_cards cid (update\<lparr>Position := k\<rparr>) cards = Inr cards'))"
proof -
  let ?st = "Status update"
  let ?others = "others_of cid ?st cards"
  let ?L = "int (length (filter (\<lambda>c. ID c \<noteq> cid \<and> Status c = ?st) cards))"
  let ?n = "if p < 0 then 0 else if ?L < p then ?L else p"
  let ?upd = "\<lambda>q. update_cards cid (update\<lparr>Position := q\<rparr>) cards"
  have L: "int (length ?others) = ?L" by (simp add: others_of_filter)
  have cl: "clamp_pos p ?others = ?n" unfolding clamp_pos_explicit L ..
  from findCardIndex_found(1,2) [OF f] have i: "i < length cards" and ci: "ID (cards ! i) = cid"
    by simp_all
  from tp have m: "Status (cards ! i) \<noteq> Status (update\<lparr>Position := p\<rparr>) \<or>
      Position (cards ! i) \<noteq> Position (update\<lparr>Position := p\<rparr>)" by simp
  from moved_card_lands [OF f m] obtain cards'
    where u: "?upd p = Inr cards'" and l: "length cards' = length cards"
      and c: "cards' ! i = (cards ! i)\<lparr>Title := Title update, Description := Description update,
                Status := ?st, Position := ?n\<rparr>"
    using cl by auto
  have 1: "ID (cards' ! i) = cid \<and> Status (cards' ! i) = ?st \<and> Position (cards' ! i) = ?n"
    using c ci by simp
  have 2: "if Status (cards ! i) = ?st \<and> Position (cards ! i) = 0
        then ?upd 0 = Inr cards' \<longleftrightarrow> (\<forall>j < length cards. j \<noteq> i \<longrightarrow> cards' ! j = cards ! j)
        else ?upd 0 = Inr cards'" if neg: "p < 0"
  proof (cases "Status (cards ! i) = ?st \<and> Position (cards ! i) = 0")
    case True
    from neg c have c0: "cards' ! i = (cards ! i)\<lparr>Title := Title (update\<lparr>Position := 0\<rparr>),
        Description := Description (update\<lparr>Position := 0\<rparr>),
        Status := Status (update\<lparr>Position := 0\<rparr>), Position := 0\<rparr>" by simp
    from boards_equal_iff [OF f _ _ l c0] True
    have "?upd 0 = Inr cards' \<longleftrightarrow> (\<forall>j < length cards. j \<noteq> i \<longrightarrow> cards' ! j = cards ! j)"
      by simp
    with True show ?thesis by (simp only: if_P if_True simp_thms)
  next
    case False
    then have t0: "Status (cards ! i) \<noteq> ?st \<or> Position (cards ! i) \<noteq> 0" by blast
    from update_cards_same_clamp [OF f tp t0 clamp_pos_below [OF neg]] u
    have "?upd 0 = Inr cards'" by simp
    with False show ?thesis by (simp only: if_not_P if_False simp_thms)
  qed
  have 3: "if Status (cards ! i) = ?st \<and> Position (cards ! i) = k
        then ?upd k = Inr cards' \<longleftrightarrow>
               k = ?L \<and> (\<forall>j < length cards. j \<noteq> i \<longrightarrow> cards' ! j = cards ! j)
        else ?upd k = Inr cards'" if lo: "?L \<le> k" and hi: "k \<le> p"
  proof (cases "Status (cards ! i) = ?st \<and> Position (cards ! i) = k")
    case True
    from lo hi have n: "?n = ?L" by auto
    from c n have ck: "cards' ! i = (cards ! i)\<lparr>Title := Title (update\<lparr>Position := k\<rparr>),
        Description := Description (update\<lparr>Position := k\<rparr>),
        Status := Status (update\<lparr>Position := k\<rparr>), Position := ?L\<rparr>" by simp
    from boards_equal_iff [OF f _ _ l ck] True
    have "?upd k = Inr cards' \<longleftrightarrow>
        ?L = k \<and> (\<forall>j < length cards. j \<noteq> i \<longrightarrow> cards' ! j = cards ! j)"
      by simp
    then have "?upd k = Inr cards' \<longleftrightarrow>
        k = ?L \<and> (\<forall>j < length cards. j \<noteq> i \<longrightarrow> cards' ! j = cards ! j)"
      by auto
    with True show ?thesis by (simp only: if_P if_True simp_thms)
  next
    case False
    then have tk: "Status (cards ! i) \<noteq> ?st \<or> Position (cards ! i) \<noteq> k" by blast
    from lo have "int (length ?others) \<le> k" by (simp add: L)
    from update_cards_same_clamp [OF f tp tk clamp_pos_above [OF this hi]] u
    have "?upd k = Inr cards'" by simp
    with False show ?thesis by (simp only: if_not_P if_False simp_thms)
  qed
  from u 1 2 3 show ?thesis by blast
qed

theorem clamped_position_decides_witness:
  "(\<exists>cards'.
      update_cards ''2''
        (\<lparr>ID = [], Title = ''b'', Description = [], Status = ''ToDo'', Position = 7\<rparr>
           \<lparr>Position := - 5\<rparr>)
        [\<lparr>ID = ''1'', Title = ''a'', Description = [], Status = ''ToDo'', Position = 0\<rparr>,
         \<lparr>ID = ''2'', Title = ''b'', Description = [], Status = ''ToDo'', Position = 1\<rparr>,
         \<lparr>ID = ''3'', Title = ''c'', Description = [], Status = ''ToDo'', Position = 2\<rparr>] =
        Inr cards' \<and>
      Position (cards' ! 1) = 0 \<and>
      update_cards ''2''
        (\<lparr>ID = [], Title = ''b'', Description = [], Status = ''ToDo'', Position = 7\<rparr>
           \<lparr>Position := 0\<rparr>)
        [\<lparr>ID = ''1'', Title = ''a'', Description = [], Status = ''ToDo'', Position = 0\<rparr>,
         \<lparr>ID = ''2'', Title = ''b'', Description = [], Status = ''ToDo'', Position = 1\<rparr>,
         \<lparr>ID = ''3'', Title = ''c'', Description = [], Status = ''ToDo'', Position = 2\<rparr>] =
        Inr cards') \<and>
   (\<exists>cards'.
      update_cards ''2''
        (\<lparr>ID = [], Title = ''b'', Description = [], Status = ''ToDo'', Position = 7\<rparr>
           \<lparr>Position := 1000\<rparr>)
        [\<lparr>ID = ''1'', Title = ''a'', Description = [], Status = ''ToDo'', Position = 0\<rparr>,
         \<lparr>ID = ''2'', Title = ''b'', Description = [], Status = ''ToDo'', Position = 1\<rparr>,
         \<lparr>ID = ''3'', Title = ''c'', Description = [], Status = ''ToDo'', Position = 2\<rparr>] =
        Inr cards' \<and>
      Position (cards' ! 1) = 2 \<and>
      update_cards ''2''
        (\<lparr>ID = [], Title = ''b'', Description = [], Status = ''ToDo'', Position = 7\<rparr>
           \<lparr>Position := 3\<rparr>)
        [\<lparr>ID = ''1'', Title = ''a'', Description = [], Status = ''ToDo'', Position = 0\<rparr>,
         \<lparr>ID = ''2'', Title = ''b'', Description = [], Status = ''ToDo'', Position = 1\<rparr>,
         \<lparr>ID = ''3'', Title = ''c'', Description = [], Status = ''ToDo'', Position = 2\<rparr>] =
        Inr cards')"
proof -
  let ?cards =
    "[\<lparr>ID = ''1'', Title = ''a'', Description = [], Status = ''ToDo'', Position = 0\<rparr>,
      \<lparr>ID = ''2'', Title = ''b'', Description = [], Status = ''ToDo'', Position = 1\<rparr>,
      \<lparr>ID = ''3'', Title = ''c'', Description = [], Status = ''ToDo'', Position = 2\<rparr>]"
  let ?u = "\<lparr>ID = [], Title = ''b'', Description = [], Status = ''ToDo'', Position = 7\<rparr>"
  have f: "findCardIndex ?cards ''2'' = int 1" by (simp add: findCardIndex_def)
  have t1: "Status (?cards ! 1) \<noteq> Status ?u \<or> Position (?cards ! 1) \<noteq> - 5" by simp
  have t2: "Status (?cards ! 1) \<noteq> Status ?u \<or> Position (?cards ! 1) \<noteq> 1000" by simp
  from clamped_position_decides [OF f t1, of 3] obtain c1
    where "update_cards ''2'' (?u\<lparr>Position := - 5\<rparr>) ?cards = Inr c1"
      and "Position (c1 ! 1) = 0"
      and "update_cards ''2'' (?u\<lparr>Position := 0\<rparr>) ?cards = Inr c1"
    by auto
  then have a: "\<exists>cards'. update_cards ''2'' (?u\<lparr>Position := - 5\<rparr>) ?cards = Inr cards' \<and>
      Position (cards' ! 1) = 0 \<and>
      update_cards ''2'' (?u\<lparr>Position := 0\<rparr>) ?cards = Inr cards'"
    by (intro exI [of _ c1] conjI)
  from clamped_position_decides [OF f t2, of 3] obtain c2
    where "update_cards ''2'' (?u\<lparr>Position := 1000\<rparr>) ?cards = Inr c2"
      and "Position (c2 ! 1) = 2"
      and "update_cards ''2'' (?u\<lparr>Position := 3\<rparr>) ?cards = Inr c2"
    by auto
  then have b: "\<exists>cards'. update_cards ''2'' (?u\<lparr>Position := 1000\<rparr>) ?cards = Inr cards' \<and>
      Position (cards' ! 1) = 2 \<and>
      update_cards ''2'' (?u\<lparr>Position := 3\<rparr>) ?cards = Inr cards'"
    by (intro exI [of _ c2] conjI)
  from a b show ?thesis by (rule conjI)
qed

section \<open>Moving a card\<close>

lemma distinct_ID_eq:
  "distinct (map ID cards) \<Longrightarrow> c \<in> set cards \<Longrightarrow> c' \<in> set cards \<Longrightarrow> ID c = ID c' \<Longrightarrow> c = c'"
  by (meson distinct_map inj_onD)

lemma place_ID [simp]: "ID (place ids st c) = ID c"
  by (simp add: place_def)

lemma place_Status [simp]: "Status (place ids st c) = Status c"
  by (simp add: place_def)

lemma column_place:
  "column st' (map (place ids st) cards) = map (place ids st) (column st' cards)"
  by (induction cards) (simp_all add: column_def)

lemma map_Position_place_other:
  "st' \<noteq> st \<Longrightarrow> map Position (column st' (map (place ids st) cards)) =
     map Position (column st' cards)"
  by (induction cards) (simp_all add: column_def place_def)

lemma map_Position_place_target:
  "map Position (column st (map (place ids st) cards)) =
     map (\<lambda>c. int (first_index ids (ID c))) (column st cards)"
  by (induction cards) (simp_all add: column_def place_def)

lemma moved_ids_carriers:
  "ID c \<in> set (moved_ids cid update cards) \<longleftrightarrow>
     ID c = cid \<or> ID c \<in> ID ` set (column (Status update) cards)"
  by (auto simp: moved_ids_set others_of_filter column_def)

lemma ids_once_moved_ids:
  "ids_once cid (Status update) cards \<longleftrightarrow>
     distinct (map ID (filter (\<lambda>c. ID c \<in> set (moved_ids cid update cards)) cards))"
  by (simp add: ids_once_def moved_ids_carriers)

lemma ids_once_distinct: "distinct (map ID cards) \<Longrightarrow> ids_once cid st cards"
  by (simp add: ids_once_def distinct_map_filter)

lemma map_ID_filter: "map ID (filter (\<lambda>c. ID c \<in> S) cards) = filter (\<lambda>x. x \<in> S) (map ID cards)"
  by (induction cards) auto

lemma ids_once_overwrite:
  assumes "ids_once cid (Status update) cards"
  shows "distinct (map ID (filter (\<lambda>c. ID c \<in> set (moved_ids cid update cards))
           (cards[i := overwrite update (cards ! i)])))"
  using assms unfolding ids_once_moved_ids map_ID_filter map_ID_overwrite .

lemma moved_ids_distinct:
  assumes "ids_once cid (Status update) cards"
  shows "distinct (moved_ids cid update cards)"
proof -
  let ?others = "others_of cid (Status update) cards"
  let ?n = "nat (clamp_pos (Position update) ?others)"
  let ?Q = "\<lambda>c. ID c \<in> set (moved_ids cid update cards)"
  have e: "?others = filter (\<lambda>c. ID c \<noteq> cid \<and> Status c = Status update) (filter ?Q cards)"
    by (auto simp: others_of_filter moved_ids_set intro!: filter_cong)
  from assms have "distinct (map ID (filter ?Q cards))" by (simp add: ids_once_moved_ids)
  then have "distinct (map ID (filter (\<lambda>c. ID c \<noteq> cid \<and> Status c = Status update)
      (filter ?Q cards)))" by (rule distinct_map_filter)
  then have d: "distinct (map ID ?others)" by (simp only: e [symmetric])
  have "map ID ?others = map ID (take ?n ?others) @ map ID (drop ?n ?others)"
    by (metis append_take_drop_id map_append)
  with d have d2: "distinct (map ID (take ?n ?others) @ map ID (drop ?n ?others))" by simp
  have "cid \<notin> ID ` set ?others" by (auto simp: others_of_filter)
  moreover have "set (take ?n ?others) \<subseteq> set ?others" by (rule set_take_subset)
  moreover have "set (drop ?n ?others) \<subseteq> set ?others" by (rule set_drop_subset)
  ultimately have "cid \<notin> ID ` set (take ?n ?others)" "cid \<notin> ID ` set (drop ?n ?others)"
    by blast+
  with d2 show ?thesis by (auto simp: moved_ids_def Let_def)
qed

text \<open>After the first loop, the cards named by the new order are exactly the cards of the
  target column, provided none of these ids occurs twice.\<close>

lemma moved_ids_column:
  assumes o: "ids_once cid (Status update) cards" and f: "findCardIndex cards cid = int i"
    and c: "c \<in> set (cards[i := overwrite update (cards ! i)])"
  shows "ID c \<in> set (moved_ids cid update cards) \<longleftrightarrow> Status c = Status update"
proof
  let ?st = "Status update"
  let ?ov = "overwrite update (cards ! i)"
  let ?cards1 = "cards[i := ?ov]"
  let ?Q = "\<lambda>c. ID c \<in> set (moved_ids cid update cards)"
  from findCardIndex_found(1,2) [OF f] have i: "i < length cards" and ci: "ID (cards ! i) = cid"
    by simp_all
  from c have cases: "c = ?ov \<or> c \<in> set cards"
    using set_update_subset_insert [of cards i ?ov] by auto
  {
    assume q: "ID c \<in> set (moved_ids cid update cards)"
    have dq: "distinct (map ID (filter ?Q ?cards1))" by (rule ids_once_overwrite [OF o])
    from i have ov: "?ov \<in> set ?cards1" by (simp add: set_update_memI)
    from q have "ID c = cid \<or> ID c \<in> ID ` set (others_of cid ?st cards)"
      by (simp add: moved_ids_set)
    then obtain y where y: "y \<in> set ?cards1" "ID y = ID c" "Status y = ?st"
    proof
      assume "ID c = cid"
      with ov ci have "?ov \<in> set ?cards1" "ID ?ov = ID c" "Status ?ov = ?st" by simp_all
      then show ?thesis by (rule that)
    next
      assume "ID c \<in> ID ` set (others_of cid ?st cards)"
      then obtain x where x: "x \<in> set cards" "ID x \<noteq> cid" "Status x = ?st" "ID x = ID c"
        by (auto simp: others_of_filter)
      then obtain m where m: "m < length cards" "cards ! m = x" by (metis in_set_conv_nth)
      with x ci have "m \<noteq> i" by auto
      with m have "?cards1 ! m = x" by simp
      with m(1) have "x \<in> set ?cards1" by (metis length_list_update nth_mem)
      with x show ?thesis by (intro that [of x]) simp_all
    qed
    from y(2) q have "ID y \<in> set (moved_ids cid update cards)" by simp
    with y(1) have "y \<in> set (filter ?Q ?cards1)" by simp
    moreover from c q have "c \<in> set (filter ?Q ?cards1)" by simp
    ultimately have "c = y" using distinct_ID_eq [OF dq] y(2) by metis
    with y(3) show "Status c = ?st" by simp
  }
  {
    assume s: "Status c = ?st"
    show "ID c \<in> set (moved_ids cid update cards)"
    proof (cases "ID c = cid")
      case True
      then show ?thesis by (simp add: moved_ids_set)
    next
      case False
      with cases ci have "c \<in> set cards" by auto
      with s False show ?thesis by (auto simp: moved_ids_set others_of_filter)
    qed
  }
qed

lemma renumber_place:
  assumes o: "ids_once cid (Status update) cards" and f: "findCardIndex cards cid = int i"
    and c: "c \<in> set (cards[i := overwrite update (cards ! i)])"
  shows "renumber (moved_ids cid update cards) 0 (Status update) c =
           place (moved_ids cid update cards) (Status update) c"
proof (cases "Status c = Status update")
  case True
  with moved_ids_column [OF o f c] have "ID c \<in> set (moved_ids cid update cards)" by simp
  from renumber_distinct [OF moved_ids_distinct [OF o] this, of 0 "Status update"] True
  show ?thesis by (simp add: place_def)
next
  case False
  with moved_ids_column [OF o f c] have "ID c \<notin> set (moved_ids cid update cards)" by simp
  from renumber_absent [OF this] False show ?thesis by (simp add: place_def)
qed

lemma update_cards_moved_place:
  assumes o: "ids_once cid (Status update) cards" and f: "findCardIndex cards cid = int i"
    and m: "Status (cards ! i) \<noteq> Status update \<or> Position (cards ! i) \<noteq> Position update"
  shows "update_cards cid update cards =
           Inr (map (place (moved_ids cid update cards) (Status update))
                  (cards[i := overwrite update (cards ! i)]))"
  unfolding update_cards_moved [OF f m]
  using renumber_place [OF o f] by (simp cong: map_cong)

lemma target_column_ids:
  assumes o: "ids_once cid (Status update) cards" and f: "findCardIndex cards cid = int i"
  shows "ID ` set (column (Status update) (cards[i := overwrite update (cards ! i)])) =
           set (moved_ids cid update cards)"
    and "distinct (map ID (column (Status update) (cards[i := overwrite update (cards ! i)])))"
    and "length (column (Status update) (cards[i := overwrite update (cards ! i)])) =
           length (moved_ids cid update cards)"
proof -
  let ?cards1 = "cards[i := overwrite update (cards ! i)]"
  let ?col = "column (Status update) ?cards1"
  let ?ids = "moved_ids cid update cards"
  show s: "ID ` set ?col = set ?ids"
  proof (intro equalityI subsetI)
    fix x assume "x \<in> ID ` set ?col"
    then obtain c where "c \<in> set ?cards1" "Status c = Status update" "x = ID c"
      by (auto simp: column_def)
    with moved_ids_column [OF o f, of c] show "x \<in> set ?ids" by simp
  next
    fix x assume x: "x \<in> set ?ids"
    with moved_ids_subset [OF f, of update] obtain c where c: "c \<in> set ?cards1" "x = ID c"
      by blast
    with moved_ids_column [OF o f, of c] x have "Status c = Status update" by simp
    with c show "x \<in> ID ` set ?col" by (auto simp: column_def)
  qed
  have "?col = filter (\<lambda>c. ID c \<in> set ?ids) ?cards1"
    unfolding column_def using moved_ids_column [OF o f] by (auto intro!: filter_cong)
  with ids_once_overwrite [OF o, of i] show dc: "distinct (map ID ?col)" by simp
  from distinct_card [OF dc] have "length (map ID ?col) = card (set (map ID ?col))"
    by (simp only:)
  also have "\<dots> = card (set ?ids)" using s by simp
  also have "\<dots> = length ?ids" using moved_ids_distinct [OF o] by (simp add: distinct_card)
  finally show "length ?col = length ?ids" by simp
qed

lemma target_column_positions:
  assumes o: "ids_once cid (Status update) cards" and f: "findCardIndex cards cid = int i"
  shows "distinct (map Position (column (Status update)
           (map (place (moved_ids cid update cards) (Status update))
              (cards[i := overwrite update (cards ! i)]))))"
    and "set (map Position (column (Status update)
           (map (place (moved_ids cid update cards) (Status update))
              (cards[i := overwrite update (cards ! i)])))) =
         {0 ..< int (length (moved_ids cid update cards))}"
proof -
  let ?cards1 = "cards[i := overwrite update (cards ! i)]"
  let ?col = "column (Status update) ?cards1"
  let ?ids = "moved_ids cid update cards"
  let ?g = "\<lambda>x. int (first_index ?ids x)"
  note t = target_column_ids [OF o f]
  have m: "map Position (column (Status update) (map (place ?ids (Status update)) ?cards1)) =
             map ?g (map ID ?col)"
    by (simp add: map_Position_place_target o_def)
  have "inj_on ?g (set ?ids)"
    using first_index_inj [of ?ids] by (auto simp: inj_on_def)
  with t(1) have inj: "inj_on ?g (set (map ID ?col))" by simp
  from conjI [OF t(2) inj] have "distinct (map ?g (map ID ?col))"
    by (rule distinct_map [THEN iffD2])
  with m show "distinct (map Position (column (Status update)
      (map (place ?ids (Status update)) ?cards1)))" by simp
  have "set (map ?g (map ID ?col)) = ?g ` (ID ` set ?col)" by (simp only: set_map)
  also have "\<dots> = ?g ` set ?ids" by (simp only: t(1))
  also have "\<dots> = int ` (first_index ?ids ` set ?ids)" by (simp add: image_image)
  also have "\<dots> = int ` {0 ..< length ?ids}"
    using first_index_image [OF moved_ids_distinct [OF o]] by simp
  also have "\<dots> = {0 ..< int (length ?ids)}" by (simp add: image_int_atLeastLessThan)
  finally show "set (map Position (column (Status update)
      (map (place ?ids (Status update)) ?cards1))) = {0 ..< int (length ?ids)}"
    using m by simp
qed

lemma renumber_by_id:
  "ID c = ID c' \<Longrightarrow> ID c \<in> set ns \<Longrightarrow>
   Position (renumber ns k st c) = Position (renumber ns k st c') \<and>
   Status (renumber ns k st c) = st"
proof (induction ns arbitrary: k c c')
  case Nil
  then show ?case by simp
next
  case (Cons n ns)
  show ?case
  proof (cases "ID c = n")
    case True
    let ?d = "c\<lparr>Position := k, Status := st\<rparr>"
    let ?d' = "c'\<lparr>Position := k, Status := st\<rparr>"
    show ?thesis
    proof (cases "n \<in> set ns")
      case False
      with True Cons.prems(1) have "ID ?d \<notin> set ns" "ID ?d' \<notin> set ns" by simp_all
      then have "renumber ns (k + 1) st ?d = ?d" "renumber ns (k + 1) st ?d' = ?d'"
        by (simp_all add: renumber_absent)
      with True Cons.prems(1) show ?thesis by simp
    next
      case in_ns: True
      with True Cons.prems(1) have "ID ?d = ID ?d'" "ID ?d \<in> set ns" by simp_all
      from Cons.IH [OF this, of "k + 1"] True Cons.prems(1) show ?thesis by simp
    qed
  next
    case False
    with Cons.prems have "ID c \<in> set ns" by simp
    from Cons.IH [OF Cons.prems(1) this, of "k + 1"] False Cons.prems(1) show ?thesis by simp
  qed
qed

lemma not_distinct_positions:
  assumes "\<not> distinct (map Position col)"
  shows "set (map Position col) \<noteq> {0 ..< int (length col)}"
proof
  assume "set (map Position col) = {0 ..< int (length col)}"
  then have "card (set (map Position col)) = length (map Position col)" by simp
  then have "distinct (map Position col)" by (rule card_distinct)
  with assms show False by simp
qed

lemma distinct_map_filter_weaker:
  assumes "distinct (map g (filter P xs))" and "\<And>x. x \<in> set xs \<Longrightarrow> P' x \<Longrightarrow> P x"
  shows "distinct (map g (filter P' xs))"
proof -
  have "filter P' xs = filter P' (filter P xs)" using assms(2) by (auto intro!: filter_cong)
  moreover from assms(1) have "distinct (map g (filter P' (filter P xs)))"
    by (rule distinct_map_filter)
  ultimately show ?thesis by simp
qed

lemma ids_twice_positions_twice:
  assumes n: "\<not> ids_once cid (Status update) cards" and f: "findCardIndex cards cid = int i"
  shows "\<not> distinct (map Position (column (Status update)
           (map (renumber (moved_ids cid update cards) 0 (Status update))
              (cards[i := overwrite update (cards ! i)]))))"
proof
  let ?st = "Status update"
  let ?cards1 = "cards[i := overwrite update (cards ! i)]"
  let ?ids = "moved_ids cid update cards"
  let ?f = "renumber ?ids 0 ?st"
  let ?Q = "\<lambda>c. ID c \<in> set ?ids"
  let ?phi = "\<lambda>x. Position (?f \<lparr>ID = x, Title = [], Description = [], Status = [], Position = 0\<rparr>)"
  assume d: "distinct (map Position (column ?st (map ?f ?cards1)))"
  have "column ?st (map ?f ?cards1) = map ?f (filter (\<lambda>c. Status (?f c) = ?st) ?cards1)"
    by (simp add: column_def filter_map o_def)
  with d have "distinct (map (\<lambda>c. Position (?f c)) (filter (\<lambda>c. Status (?f c) = ?st) ?cards1))"
    by (simp add: o_def)
  then have "distinct (map (\<lambda>c. Position (?f c)) (filter ?Q ?cards1))"
    by (rule distinct_map_filter_weaker) (simp add: renumber_present_Status)
  moreover have "Position (?f c) = ?phi (ID c)" if "c \<in> set (filter ?Q ?cards1)" for c
  proof -
    let ?dummy = "\<lparr>ID = ID c, Title = [], Description = [], Status = [], Position = 0\<rparr>"
    have "ID c = ID ?dummy" by simp
    moreover from that have "ID c \<in> set ?ids" by simp
    ultimately show ?thesis by (rule renumber_by_id [THEN conjunct1])
  qed
  then have "map (\<lambda>c. Position (?f c)) (filter ?Q ?cards1) =
      map (\<lambda>c. ?phi (ID c)) (filter ?Q ?cards1)"
    by (rule map_cong [OF refl])
  then have "map (\<lambda>c. Position (?f c)) (filter ?Q ?cards1) =
      map ?phi (map ID (filter ?Q ?cards1))"
    by (simp only: map_map o_def)
  ultimately have "distinct (map ?phi (map ID (filter ?Q ?cards1)))" by simp
  then have "distinct (map ID (filter ?Q ?cards1))"
    by (rule distinct_map [THEN iffD1, THEN conjunct1])
  then have "distinct (map ID (filter ?Q cards))"
    unfolding map_ID_filter map_ID_overwrite .
  with n show False by (simp add: ids_once_moved_ids)
qed

section \<open>The target column after a move\<close>




section \<open>The order of the other cards\<close>

text \<open>
  C2: when an update changes the status or the position of a card, the other cards of the
  target column are to be taken by ascending position, the moving card spliced into that
  sequence at the clamped index and the sequence renumbered. The handler takes them in the
  order of the slice instead. On the column created as A, B, C the move of C to position 0
  is as expected, C (0), A (1), B (2), and leaves the slice as A, B, C with the positions
  1, 2, 0. Moving A to position 0 then takes the others as B, C, although C has the smaller
  position; by position they are C, B. The handler answers A (0), B (1), C (2): the cards
  B and C have changed places, where the sequence by position gives A (0), C (1), B (2).
\<close>

theorem others_taken_in_slice_order:
  "run [Create 1 \<lparr>ID = [], Title = ''A'', Description = [], Status = ''ToDo'', Position = 0\<rparr>,
        Create 2 \<lparr>ID = [], Title = ''B'', Description = [], Status = ''ToDo'', Position = 0\<rparr>,
        Create 3 \<lparr>ID = [], Title = ''C'', Description = [], Status = ''ToDo'', Position = 0\<rparr>,
        Update ''3'' \<lparr>ID = [], Title = ''C'', Description = [], Status = ''ToDo'', Position = 0\<rparr>] =
     [\<lparr>ID = ''1'', Title = ''A'', Description = [], Status = ''ToDo'', Position = 1\<rparr>,
      \<lparr>ID = ''2'', Title = ''B'', Description = [], Status = ''ToDo'', Position = 2\<rparr>,
      \<lparr>ID = ''3'', Title = ''C'', Description = [], Status = ''ToDo'', Position = 0\<rparr>] \<and>
   map ID (others_of ''1'' ''ToDo''
     [\<lparr>ID = ''1'', Title = ''A'', Description = [], Status = ''ToDo'', Position = 1\<rparr>,
      \<lparr>ID = ''2'', Title = ''B'', Description = [], Status = ''ToDo'', Position = 2\<rparr>,
      \<lparr>ID = ''3'', Title = ''C'', Description = [], Status = ''ToDo'', Position = 0\<rparr>]) =
     [''2'', ''3''] \<and>
   map ID (others_by_position ''1'' ''ToDo''
     [\<lparr>ID = ''1'', Title = ''A'', Description = [], Status = ''ToDo'', Position = 1\<rparr>,
      \<lparr>ID = ''2'', Title = ''B'', Description = [], Status = ''ToDo'', Position = 2\<rparr>,
      \<lparr>ID = ''3'', Title = ''C'', Description = [], Status = ''ToDo'', Position = 0\<rparr>]) =
     [''3'', ''2''] \<and>
   run [Create 1 \<lparr>ID = [], Title = ''A'', Description = [], Status = ''ToDo'', Position = 0\<rparr>,
        Create 2 \<lparr>ID = [], Title = ''B'', Description = [], Status = ''ToDo'', Position = 0\<rparr>,
        Create 3 \<lparr>ID = [], Title = ''C'', Description = [], Status = ''ToDo'', Position = 0\<rparr>,
        Update ''3'' \<lparr>ID = [], Title = ''C'', Description = [], Status = ''ToDo'', Position = 0\<rparr>,
        Update ''1'' \<lparr>ID = [], Title = ''A'', Description = [], Status = ''ToDo'', Position = 0\<rparr>] =
     [\<lparr>ID = ''1'', Title = ''A'', Description = [], Status = ''ToDo'', Position = 0\<rparr>,
      \<lparr>ID = ''2'', Title = ''B'', Description = [], Status = ''ToDo'', Position = 1\<rparr>,
      \<lparr>ID = ''3'', Title = ''C'', Description = [], Status = ''ToDo'', Position = 2\<rparr>] \<and>
   reassign
     (\<lparr>ID = ''1'', Title = ''A'', Description = [], Status = ''ToDo'', Position = 0\<rparr> #
      others_by_position ''1'' ''ToDo''
        [\<lparr>ID = ''1'', Title = ''A'', Description = [], Status = ''ToDo'', Position = 1\<rparr>,
         \<lparr>ID = ''2'', Title = ''B'', Description = [], Status = ''ToDo'', Position = 2\<rparr>,
         \<lparr>ID = ''3'', Title = ''C'', Description = [], Status = ''ToDo'', Position = 0\<rparr>])
     0 ''ToDo''
     [\<lparr>ID = ''1'', Title = ''A'', Description = [], Status = ''ToDo'', Position = 0\<rparr>,
      \<lparr>ID = ''2'', Title = ''B'', Description = [], Status = ''ToDo'', Position = 2\<rparr>,
      \<lparr>ID = ''3'', Title = ''C'', Description = [], Status = ''ToDo'', Position = 0\<rparr>] =
     [\<lparr>ID = ''1'', Title = ''A'', Description = [], Status = ''ToDo'', Position = 0\<rparr>,
      \<lparr>ID = ''2'', Title = ''B'', Description = [], Status = ''ToDo'', Position = 2\<rparr>,
      \<lparr>ID = ''3'', Title = ''C'', Description = [], Status = ''ToDo'', Position = 1\<rparr>]"
  by (simp add: run_eval others_by_position_def)

section \<open>Boards that requests can leave\<close>

lemma board_ok_empty: "board_ok 0 []"
  by (simp add: board_ok_def column_def)

lemma board_ok_Suc: "board_ok n cards \<Longrightarrow> board_ok (Suc n) cards"
  by (auto simp: board_ok_def)

lemma new_card_append:
  assumes h: "\<forall>c \<in> set (column (Status crd) cards). 0 \<le> Position c \<and> Position c < 2 ^ 63 - 1"
  shows "Position (new_card now crd cards) =
           (if column (Status crd) cards = [] then 0
            else Max (Position ` set (column (Status crd) cards)) + 1)"
    and "\<forall>c \<in> set (column (Status crd) cards). Position c < Position (new_card now crd cards)"
proof -
  let ?col = "column (Status crd) cards"
  let ?S = "Position ` set ?col"
  show "Position (new_card now crd cards) = (if ?col = [] then 0 else Max ?S + 1)"
  proof (cases "?col = []")
    case True
    then show ?thesis by (simp add: new_card_Position_empty)
  next
    case False
    then have "Max ?S \<in> ?S" by (intro Max_in) simp_all
    with h have "- 1 \<le> Max ?S \<and> Max ?S < 2 ^ 63 - 1" by auto
    with new_card_Position_iff [OF False, of now] False show ?thesis by simp
  qed
  from h have "\<forall>c \<in> set ?col. Position c < 2 ^ 63 - 1" by simp
  then show "\<forall>c \<in> set ?col. Position c < Position (new_card now crd cards)"
    by (rule new_card_after_column)
qed

lemma new_card_bound:
  assumes b: "\<forall>c \<in> set cards. 0 \<le> Position c \<and> Position c < int n"
    and n: "int n < 2 ^ 63 - 1"
  shows "0 \<le> Position (new_card now crd cards) \<and> Position (new_card now crd cards) \<le> int n"
proof -
  let ?col = "column (Status crd) cards"
  let ?S = "Position ` set ?col"
  from b n have h: "\<forall>c \<in> set ?col. 0 \<le> Position c \<and> Position c < 2 ^ 63 - 1"
    by (auto simp: column_def)
  from new_card_append(1) [OF h, where now = now]
  have p: "Position (new_card now crd cards) = (if ?col = [] then 0 else Max ?S + 1)" .
  show ?thesis
  proof (cases "?col = []")
    case True
    with p show ?thesis by simp
  next
    case False
    then have "Max ?S \<in> ?S" by (intro Max_in) simp_all
    then obtain c where "c \<in> set cards" "Max ?S = Position c" by (auto simp: column_def)
    with b have m: "0 \<le> Max ?S" "Max ?S < int n" by auto
    from p False have "Position (new_card now crd cards) = Max ?S + 1" by simp
    with m show ?thesis by linarith
  qed
qed

lemma column_append: "column st (xs @ ys) = column st xs @ column st ys"
  by (simp add: column_def)

lemma board_ok_create:
  assumes ok: "board_ok n cards" and n: "int n < 2 ^ 63 - 1"
    and fresh: "generateID now \<notin> ID ` set cards"
  shows "board_ok (Suc n) (create_cards now crd cards)"
proof -
  let ?new = "new_card now crd cards"
  from ok have d: "distinct (map ID cards)"
    and dp: "\<And>st. distinct (map Position (column st cards))"
    and b: "\<forall>c \<in> set cards. 0 \<le> Position c \<and> Position c < int n"
    and l: "length cards \<le> n"
    by (simp_all add: board_ok_def)
  from b n have h: "\<forall>c \<in> set (column (Status crd) cards).
      0 \<le> Position c \<and> Position c < 2 ^ 63 - 1" by (auto simp: column_def)
  from new_card_append(2) [OF h, where now = now]
  have lt: "\<forall>c \<in> set (column (Status crd) cards). Position c < Position ?new" .
  have idn: "ID ?new = generateID now" by (simp add: new_card_def)
  have stn: "Status ?new = Status crd" by (simp add: new_card_def)
  from new_card_bound [OF b n, of now crd]
  have bn: "0 \<le> Position ?new" "Position ?new < int (Suc n)" by simp_all
  have 1: "distinct (map ID (cards @ [?new]))" using d fresh idn by simp
  have 2: "distinct (map Position (column st (cards @ [?new])))" for st
  proof (cases "st = Status crd")
    case True
    from lt have "Position ?new \<notin> Position ` set (column (Status crd) cards)" by auto
    with dp [of st] True stn show ?thesis by (simp add: column_append) (simp add: column_def)
  next
    case False
    with dp [of st] stn show ?thesis by (simp add: column_append) (simp add: column_def)
  qed
  have 3: "\<forall>c \<in> set (cards @ [?new]). 0 \<le> Position c \<and> Position c < int (Suc n)"
    using b bn by auto
  from 1 2 3 l show ?thesis by (simp add: board_ok_def create_cards_def)
qed

lemma column_filter: "column st (filter P cards) = filter P (column st cards)"
  by (induction cards) (simp_all add: column_def)

lemma board_ok_filter:
  assumes "board_ok n cards"
  shows "board_ok n (filter P cards)"
proof -
  from assms have "distinct (map ID (filter P cards))"
    by (simp add: board_ok_def distinct_map_filter)
  moreover from assms have "distinct (map Position (column st (filter P cards)))" for st
    by (simp add: board_ok_def column_filter distinct_map_filter)
  moreover from assms have "\<forall>c \<in> set (filter P cards). 0 \<le> Position c \<and> Position c < int n"
    by (simp add: board_ok_def)
  moreover from assms have "length cards \<le> n" by (simp add: board_ok_def)
  then have "length (filter P cards) \<le> n" by (rule le_trans [OF length_filter_le])
  ultimately show ?thesis by (simp add: board_ok_def)
qed

lemma board_ok_delete:
  assumes "board_ok n cards"
  shows "board_ok n (step cards (Delete cid))"
  using assms board_ok_filter [OF assms, of "\<lambda>c. ID c \<noteq> cid"]
  by (simp add: delete_cards_def remove_id_filter Let_def)

lemma column_list_update_same:
  "i < length cards \<Longrightarrow> Status c' = Status (cards ! i) \<Longrightarrow> Position c' = Position (cards ! i) \<Longrightarrow>
   map Position (column st (cards[i := c'])) = map Position (column st cards)"
proof (induction cards arbitrary: i)
  case Nil
  then show ?case by simp
next
  case (Cons c cards)
  then show ?case by (cases i) (simp_all add: column_def)
qed

lemma set_filter_list_update:
  "\<not> P y \<Longrightarrow> set (filter P (xs[i := y])) \<subseteq> set (filter P xs)"
proof (induction xs arbitrary: i)
  case Nil
  then show ?case by simp
next
  case (Cons x xs)
  then show ?case by (cases i) auto
qed

lemma distinct_map_filter_list_update:
  "distinct (map g (filter P xs)) \<Longrightarrow> \<not> P y \<Longrightarrow> distinct (map g (filter P (xs[i := y])))"
proof (induction xs arbitrary: i)
  case Nil
  then show ?case by simp
next
  case (Cons x xs)
  show ?case
  proof (cases i)
    case 0
    with Cons.prems show ?thesis by (auto split: if_splits)
  next
    case (Suc j)
    from Cons.prems have d: "distinct (map g (filter P xs))" by (auto split: if_splits)
    from Cons.IH [of j] d Cons.prems(2)
    have dj: "distinct (map g (filter P (xs[j := y])))" .
    show ?thesis
    proof (cases "P x")
      case True
      with Cons.prems have "g x \<notin> g ` set (filter P xs)" by simp
      with set_filter_list_update [of P y xs j] Cons.prems(2)
      have "g x \<notin> g ` set (filter P (xs[j := y]))" by blast
      with dj True Suc show ?thesis by simp
    next
      case False
      with dj Suc show ?thesis by simp
    qed
  qed
qed

lemma board_ok_update:
  assumes ok: "board_ok n cards"
  shows "board_ok n (step cards (Update cid update))"
proof (cases "cid \<in> ID ` set cards")
  case False
  with ok show ?thesis by (simp add: update_cards_absent)
next
  case True
  from findCardIndex_present [OF True] obtain i where f: "findCardIndex cards cid = int i"
    by blast
  let ?st = "Status update"
  let ?ov = "overwrite update (cards ! i)"
  let ?cards1 = "cards[i := ?ov]"
  let ?ids = "moved_ids cid update cards"
  from ok have d: "distinct (map ID cards)"
    and dp: "\<And>st. distinct (map Position (column st cards))"
    and b: "\<forall>c \<in> set cards. 0 \<le> Position c \<and> Position c < int n"
    and l: "length cards \<le> n"
    by (simp_all add: board_ok_def)
  from findCardIndex_found(1,2) [OF f] have i: "i < length cards" and ci: "ID (cards ! i) = cid"
    by simp_all
  from d have d1: "distinct (map ID ?cards1)" by (simp add: map_ID_overwrite)
  from d have o: "ids_once cid ?st cards" by (rule ids_once_distinct)
  show ?thesis
  proof (cases "Status (cards ! i) \<noteq> ?st \<or> Position (cards ! i) \<noteq> Position update")
    case False
    then have same: "Status ?ov = Status (cards ! i)" "Position ?ov = Position (cards ! i)"
      by (simp_all add: overwrite_def)
    from False findCardIndex_found(3) [OF f, of update]
    have u: "update_cards cid update cards = Inr ?cards1" by (simp add: update_cards_def)
    have 2: "distinct (map Position (column st ?cards1))" for st
      using column_list_update_same [OF i same, of st] dp [of st] by simp
    have 3: "\<forall>c \<in> set ?cards1. 0 \<le> Position c \<and> Position c < int n"
    proof
      fix c assume "c \<in> set ?cards1"
      then have "c = ?ov \<or> c \<in> set cards"
        using set_update_subset_insert [of cards i ?ov] by auto
      with b same i show "0 \<le> Position c \<and> Position c < int n" by (metis nth_mem)
    qed
    from d1 2 3 l u show ?thesis by (simp add: board_ok_def)
  next
    case True
    let ?cards' = "map (place ?ids ?st) ?cards1"
    from update_cards_moved_place [OF o f True]
    have u: "update_cards cid update cards = Inr ?cards'" .
    have 1: "distinct (map ID ?cards')" using d1 by (simp add: o_def)
    have lenids: "length ?ids \<le> length cards"
    proof -
      from i ci have "cards ! i \<in> set cards" "\<not> (ID (cards ! i) \<noteq> cid \<and> Status (cards ! i) = ?st)"
        by simp_all
      then have "length (filter (\<lambda>c. ID c \<noteq> cid \<and> Status c = ?st) cards) < length cards"
        by (rule length_filter_less)
      then show ?thesis by (simp add: moved_ids_length others_of_filter)
    qed
    have 2: "distinct (map Position (column st ?cards'))" for st
    proof (cases "st = ?st")
      case True
      with target_column_positions(1) [OF o f] show ?thesis by simp
    next
      case False
      then have "\<not> (Status ?ov = st)" by simp
      from distinct_map_filter_list_update [of Position "\<lambda>c. Status c = st" cards ?ov i] this
        dp [of st]
      have "distinct (map Position (column st ?cards1))" by (simp add: column_def)
      with map_Position_place_other [OF False, of ?ids ?cards1] show ?thesis by simp
    qed
    have 3: "\<forall>c \<in> set ?cards'. 0 \<le> Position c \<and> Position c < int n"
    proof
      fix c' assume "c' \<in> set ?cards'"
      then obtain c where c: "c \<in> set ?cards1" "c' = place ?ids ?st c" by auto
      show "0 \<le> Position c' \<and> Position c' < int n"
      proof (cases "Status c = ?st")
        case True
        with moved_ids_column [OF o f c(1)] have "ID c \<in> set ?ids" by simp
        then have "first_index ?ids (ID c) < length ?ids" by (rule first_index_less)
        with lenids l have "first_index ?ids (ID c) < n" by simp
        with c(2) True show ?thesis by (simp add: place_def)
      next
        case False
        then have "c \<noteq> ?ov" by auto
        with c(1) have "c \<in> set cards"
          using set_update_subset_insert [of cards i ?ov] by auto
        with b c(2) False show ?thesis by (simp add: place_def)
      qed
    qed
    from 1 2 3 l u show ?thesis by (simp add: board_ok_def)
  qed
qed

lemma board_ok_step:
  assumes "board_ok n cards" and "int n < 2 ^ 63 - 1" and "fresh_ids cards (r # reqs)"
  shows "board_ok (Suc n) (step cards r)"
proof (cases r)
  case (Create now crd)
  with assms(3) have "generateID now \<notin> ID ` set cards" by simp
  from board_ok_create [OF assms(1,2) this] Create show ?thesis by simp
next
  case (Update cid update)
  with board_ok_Suc [OF board_ok_update [OF assms(1)]] show ?thesis by simp
next
  case (Delete cid)
  with board_ok_Suc [OF board_ok_delete [OF assms(1)]] show ?thesis by simp
qed

lemma fresh_ids_tail: "fresh_ids cards (r # reqs) \<Longrightarrow> fresh_ids (step cards r) reqs"
  by (cases r) simp_all

lemma board_ok_foldl:
  "board_ok n cards \<Longrightarrow> int n + int (length reqs) < 2 ^ 63 \<Longrightarrow> fresh_ids cards reqs \<Longrightarrow>
   board_ok (n + length reqs) (foldl step cards reqs)"
proof (induction reqs arbitrary: n cards)
  case Nil
  then show ?case by simp
next
  case (Cons r reqs)
  from Cons.prems(2) have n: "int n < 2 ^ 63 - 1" by simp
  from board_ok_step [OF Cons.prems(1) n Cons.prems(3)]
  have ok: "board_ok (Suc n) (step cards r)" .
  from Cons.prems(2) have "int (Suc n) + int (length reqs) < 2 ^ 63" by simp
  from Cons.IH [OF ok this fresh_ids_tail [OF Cons.prems(3)]] show ?case by simp
qed

lemma column_empty: "st \<notin> Status ` set cards \<Longrightarrow> column st cards = []"
  by (auto simp: column_def filter_empty_conv)

section \<open>The dense ordering, request by request\<close>

lemma dense_all: "dense cards \<longleftrightarrow> (\<forall>st. dense_in st cards)"
proof
  assume d: "dense cards"
  show "\<forall>st. dense_in st cards"
  proof
    fix st
    show "dense_in st cards"
    proof (cases "st \<in> Status ` set cards")
      case True
      with d show ?thesis by (auto simp: dense_def dense_in_def)
    next
      case False
      then show ?thesis by (simp add: column_empty dense_in_def)
    qed
  qed
next
  assume "\<forall>st. dense_in st cards"
  then show "dense cards" by (simp add: dense_def dense_in_def)
qed

lemma dense_in_cong:
  "map Position (column st cards') = map Position (column st cards) \<Longrightarrow>
   dense_in st cards' \<longleftrightarrow> dense_in st cards"
proof -
  assume m: "map Position (column st cards') = map Position (column st cards)"
  then have "length (column st cards') = length (column st cards)" by (metis length_map)
  with m show ?thesis by (simp add: dense_in_def)
qed

text \<open>A create extends its column by the next position and touches no other column.\<close>

lemma dense_in_create:
  assumes ok: "board_ok n cards" and n: "int n < 2 ^ 63 - 1"
  shows "dense_in st (create_cards now crd cards) \<longleftrightarrow> dense_in st cards"
proof (cases "st = Status crd")
  case False
  then have "column st (create_cards now crd cards) = column st cards"
    by (simp add: create_cards_def column_append) (simp add: column_def new_card_def)
  then show ?thesis by (simp add: dense_in_def)
next
  case True
  let ?new = "new_card now crd cards"
  let ?col = "column st cards"
  let ?S = "Position ` set ?col"
  let ?k = "int (length ?col)"
  from ok have b: "\<forall>c \<in> set cards. 0 \<le> Position c \<and> Position c < int n"
    and dp: "distinct (map Position ?col)"
    by (simp_all add: board_ok_def)
  from b n True have h: "\<forall>c \<in> set (column (Status crd) cards).
      0 \<le> Position c \<and> Position c < 2 ^ 63 - 1" by (auto simp: column_def)
  from new_card_append [OF h, where now = now] True
  have p: "Position ?new = (if ?col = [] then 0 else Max ?S + 1)"
    and lt: "\<forall>c \<in> set ?col. Position c < Position ?new" by simp_all
  from lt have notin: "Position ?new \<notin> ?S" by auto
  have col': "column st (create_cards now crd cards) = ?col @ [?new]"
    using True by (simp add: create_cards_def column_append) (simp add: column_def new_card_def)
  have iff: "dense_in st (create_cards now crd cards) \<longleftrightarrow>
      insert (Position ?new) ?S = {0 ..< ?k + 1}"
    by (simp add: dense_in_def col' add.commute)
  have up: "insert ?k {0 ..< ?k} = {0 ..< ?k + 1}" by auto
  show ?thesis
  proof
    assume "dense_in st cards"
    then have S: "?S = {0 ..< ?k}" by (simp add: dense_in_def)
    have "Position ?new = ?k"
    proof (cases "?col = []")
      case True
      with p show ?thesis by simp
    next
      case False
      then have "0 < ?k" by simp
      then have "Max {0 ..< ?k} = ?k - 1" by (intro Max_eqI) auto
      with p S False show ?thesis by simp
    qed
    with S up iff show "dense_in st (create_cards now crd cards)" by simp
  next
    assume "dense_in st (create_cards now crd cards)"
    with iff have e: "insert (Position ?new) ?S = {0 ..< ?k + 1}" by simp
    have c: "card ?S = length ?col" using dp by (metis distinct_card length_map set_map)
    have sub: "?S \<subseteq> {0 ..< ?k}"
    proof
      fix x assume x: "x \<in> ?S"
      with e have "0 \<le> x" "x < ?k + 1" by auto
      moreover from x lt have "x < Position ?new" by auto
      moreover from e have "Position ?new < ?k + 1" by auto
      ultimately show "x \<in> {0 ..< ?k}" by simp
    qed
    have "?S = {0 ..< ?k}"
    proof (rule card_subset_eq [OF _ sub])
      show "finite {0 ..< ?k}" by simp
      show "card ?S = card {0 ..< ?k}" using c by simp
    qed
    then show "dense_in st cards" by (simp add: dense_in_def)
  qed
qed

text \<open>Taking one card out of a column without renumbering the others.\<close>

lemma filter_ID_single:
  assumes di: "distinct (map ID col)" and c: "c \<in> set col"
  shows "filter (\<lambda>x. ID x \<noteq> ID c) col = remove1 c col"
    and "set (filter (\<lambda>x. ID x = ID c) col) = {c}"
proof -
  from di have dc: "distinct col" by (rule distinct_map [THEN iffD1, THEN conjunct1])
  have eq: "ID x = ID c \<longleftrightarrow> x = c" if "x \<in> set col" for x
    using distinct_ID_eq [OF di that c] by auto
  have "filter (\<lambda>x. ID x \<noteq> ID c) col = filter (\<lambda>x. c \<noteq> x) col"
    by (rule filter_cong [OF refl]) (use eq in auto)
  also have "\<dots> = removeAll c col" by (simp add: removeAll_filter_not_eq)
  also have "\<dots> = remove1 c col" using dc by (simp add: distinct_remove1_removeAll)
  finally show "filter (\<lambda>x. ID x \<noteq> ID c) col = remove1 c col" .
  show "set (filter (\<lambda>x. ID x = ID c) col) = {c}" using eq c by auto
qed

lemma removal_dense:
  assumes dp: "distinct (map Position col)" and di: "distinct (map ID col)"
    and c: "c \<in> set col"
  shows "set (map Position (filter (\<lambda>x. ID x \<noteq> ID c) col)) =
           {0 ..< int (length (filter (\<lambda>x. ID x \<noteq> ID c) col))} \<longleftrightarrow>
         Position ` set col = insert (Position c) {0 ..< int (length col) - 1}"
proof -
  let ?S = "Position ` set col"
  let ?k = "int (length col)"
  let ?p = "Position c"
  from di have dc: "distinct col" by (rule distinct_map [THEN iffD1, THEN conjunct1])
  from dp have inj: "inj_on Position (set col)" by (simp add: distinct_map)
  note f = filter_ID_single(1) [OF di c]
  from c have pos: "0 < length col" by (cases col) auto
  from pos have "int (length col - 1) = ?k - 1" by (cases col) simp_all
  with c have len: "int (length (remove1 c col)) = ?k - 1"
    by (simp only: length_remove1 if_True)
  have "Position ` (set col - {c}) = ?S - {?p}"
    using inj c by (auto dest: inj_onD)
  then have st: "set (map Position (remove1 c col)) = ?S - {?p}"
    using dc by simp
  have cd: "card ?S = length col" using dp by (metis distinct_card length_map set_map)
  have pin: "?p \<in> ?S" using c by simp
  have "?S - {?p} = {0 ..< ?k - 1} \<longleftrightarrow> ?S = insert ?p {0 ..< ?k - 1}"
  proof
    assume "?S - {?p} = {0 ..< ?k - 1}"
    with pin show "?S = insert ?p {0 ..< ?k - 1}" by auto
  next
    assume e: "?S = insert ?p {0 ..< ?k - 1}"
    have "?p \<notin> {0 ..< ?k - 1}"
    proof
      assume "?p \<in> {0 ..< ?k - 1}"
      with e have "?S = {0 ..< ?k - 1}" by auto
      then have "card ?S = nat (?k - 1)" by simp
      with cd have "int (length col) = int (nat (?k - 1))" by simp
      with pos show False by linarith
    qed
    with e show "?S - {?p} = {0 ..< ?k - 1}" by auto
  qed
  then show ?thesis by (simp only: f st len)
qed

lemma removal_dense_last:
  assumes "Position ` set col = {0 ..< int (length col)}" and "0 < length col"
  shows "Position ` set col = insert p {0 ..< int (length col) - 1} \<longleftrightarrow> p = int (length col) - 1"
proof -
  let ?k = "int (length col)"
  from assms(2) have k: "0 < ?k" by simp
  have "{0 ..< ?k} = insert p {0 ..< ?k - 1} \<longleftrightarrow> p = ?k - 1"
  proof
    assume e: "{0 ..< ?k} = insert p {0 ..< ?k - 1}"
    from k have "?k - 1 \<in> {0 ..< ?k}" by simp
    with e have "?k - 1 \<in> insert p {0 ..< ?k - 1}" by simp
    then show "p = ?k - 1" by simp
  next
    assume "p = ?k - 1"
    with k show "{0 ..< ?k} = insert p {0 ..< ?k - 1}" by auto
  qed
  with assms(1) show ?thesis by simp
qed

lemma filter_list_update_removed:
  "distinct (map ID cards) \<Longrightarrow> i < length cards \<Longrightarrow> \<not> P y \<Longrightarrow>
   filter P (cards[i := y]) = filter (\<lambda>c. ID c \<noteq> ID (cards ! i) \<and> P c) cards"
proof (induction cards arbitrary: i)
  case Nil
  then show ?case by simp
next
  case (Cons c cards)
  show ?case
  proof (cases i)
    case 0
    from Cons.prems(1) have nc: "ID c \<notin> ID ` set cards" by simp
    have "\<forall>x \<in> set cards. ID x \<noteq> ID c"
    proof
      fix x assume "x \<in> set cards"
      then have "ID x \<in> ID ` set cards" by (rule imageI)
      with nc show "ID x \<noteq> ID c" by metis
    qed
    then have "filter (\<lambda>x. ID x \<noteq> ID c \<and> P x) cards = filter P cards"
      by (intro filter_cong [OF refl]) auto
    with 0 Cons.prems(3) show ?thesis by simp
  next
    case (Suc j)
    with Cons.prems have j: "j < length cards" and d: "distinct (map ID cards)" by simp_all
    from Cons.prems(1) j have "ID c \<noteq> ID (cards ! j)" by auto
    with Cons.IH [OF d j Cons.prems(3)] Suc show ?thesis by simp
  qed
qed

lemma step_Delete:
  "step cards (Delete cid) = filter (\<lambda>c. ID c \<noteq> cid) cards"
proof (cases "cid \<in> ID ` set cards")
  case False
  then have "\<forall>c \<in> set cards. ID c \<noteq> cid" by auto
  then have "filter (\<lambda>c. ID c \<noteq> cid) cards = cards" by simp
  with False show ?thesis by (simp add: delete_cards_absent)
next
  case True
  then obtain c where "c \<in> set cards" "\<not> ID c \<noteq> cid" by auto
  then have "length (filter (\<lambda>c. ID c \<noteq> cid) cards) < length cards"
    by (rule length_filter_less)
  then show ?thesis by (simp add: delete_cards_def remove_id_filter Let_def)
qed

lemma dense_in_removed:
  assumes ok: "board_ok n cards"
    and col': "map Position (column st cards') =
                 map Position (filter (\<lambda>c. ID c \<noteq> cid) (column st cards))"
  shows "dense_in st cards' \<longleftrightarrow>
     (if filter (\<lambda>c. ID c = cid) (column st cards) = [] then dense_in st cards
      else Position ` set (column st cards) =
             Position ` set (filter (\<lambda>c. ID c = cid) (column st cards)) \<union>
             {0 ..< int (length (column st cards)) - 1})"
proof -
  let ?col = "column st cards"
  let ?rest = "filter (\<lambda>c. ID c \<noteq> cid) ?col"
  from ok have dp: "distinct (map Position ?col)" and d: "distinct (map ID cards)"
    by (simp_all add: board_ok_def)
  from d have di: "distinct (map ID ?col)" by (simp add: column_def distinct_map_filter)
  from col' have l: "length (column st cards') = length ?rest" by (metis length_map)
  have iff: "dense_in st cards' \<longleftrightarrow> set (map Position ?rest) = {0 ..< int (length ?rest)}"
    by (simp only: dense_in_def col' l)
  show ?thesis
  proof (cases "filter (\<lambda>c. ID c = cid) ?col = []")
    case True
    then have "\<forall>c \<in> set ?col. ID c \<noteq> cid" by (simp add: filter_empty_conv)
    then have "?rest = ?col" by simp
    with iff True show ?thesis by (simp add: dense_in_def)
  next
    case False
    then obtain c where c: "c \<in> set ?col" "ID c = cid"
      by (auto simp: filter_empty_conv)
    from filter_ID_single(2) [OF di c(1)] c(2)
    have "Position ` set (filter (\<lambda>c. ID c = cid) ?col) = {Position c}" by simp
    with removal_dense [OF dp di c(1)] c(2) iff False show ?thesis by simp
  qed
qed

lemma dense_in_delete:
  assumes ok: "board_ok n cards"
  shows "dense_in st (step cards (Delete cid)) \<longleftrightarrow>
     (if leaving st cards (Delete cid) = [] then dense_in st cards
      else Position ` set (column st cards) =
             Position ` set (leaving st cards (Delete cid)) \<union>
             {0 ..< int (length (column st cards)) - 1})"
proof -
  have "map Position (column st (step cards (Delete cid))) =
      map Position (filter (\<lambda>c. ID c \<noteq> cid) (column st cards))"
    by (simp only: step_Delete column_filter)
  from dense_in_removed [OF ok this] show ?thesis by simp
qed

lemma dense_in_update:
  assumes ok: "board_ok n cards"
  shows "dense_in st (step cards (Update cid update)) \<longleftrightarrow>
     (if entering st cards (Update cid update) then True
      else if leaving st cards (Update cid update) = [] then dense_in st cards
      else Position ` set (column st cards) =
             Position ` set (leaving st cards (Update cid update)) \<union>
             {0 ..< int (length (column st cards)) - 1})"
proof (cases "cid \<in> ID ` set cards")
  case False
  then have n: "\<forall>c \<in> set cards. ID c \<noteq> cid" by auto
  then have "filter (\<lambda>c. ID c = cid) (column st cards) = []"
    by (simp add: column_def filter_empty_conv)
  with False n show ?thesis by (simp add: update_cards_absent)
next
  case True
  from findCardIndex_present [OF True] obtain i where f: "findCardIndex cards cid = int i"
    by blast
  let ?ust = "Status update"
  let ?ov = "overwrite update (cards ! i)"
  let ?cards1 = "cards[i := ?ov]"
  let ?ids = "moved_ids cid update cards"
  from ok have d: "distinct (map ID cards)" by (simp add: board_ok_def)
  from d have o: "ids_once cid ?ust cards" by (rule ids_once_distinct)
  from findCardIndex_found(1,2) [OF f] have i: "i < length cards" and ci: "ID (cards ! i) = cid"
    by simp_all
  from i have mem: "cards ! i \<in> set cards" by simp
  have only: "c = cards ! i" if "c \<in> set cards" "ID c = cid" for c
    using distinct_ID_eq [OF d that(1) mem] that(2) ci by simp
  show ?thesis
  proof (cases "Status (cards ! i) \<noteq> ?ust \<or> Position (cards ! i) \<noteq> Position update")
    case False
    then have same: "Status ?ov = Status (cards ! i)" "Position ?ov = Position (cards ! i)"
      by (simp_all add: overwrite_def)
    from False findCardIndex_found(3) [OF f, of update]
    have u: "update_cards cid update cards = Inr ?cards1" by (simp add: update_cards_def)
    from column_list_update_same [OF i same, of st]
    have "dense_in st ?cards1 \<longleftrightarrow> dense_in st cards" by (rule dense_in_cong)
    with u have 1: "dense_in st (step cards (Update cid update)) \<longleftrightarrow> dense_in st cards" by simp
    have 2: "\<not> entering st cards (Update cid update)"
    proof
      assume "entering st cards (Update cid update)"
      then obtain c where "Status update = st" "c \<in> set cards" "ID c = cid"
        "Status c \<noteq> st \<or> Position c \<noteq> Position update" by auto
      with only [of c] False show False by simp
    qed
    have 3: "leaving st cards (Update cid update) = []"
    proof (cases "?ust = st")
      case True
      then show ?thesis by simp
    next
      case ne: False
      have "\<forall>c \<in> set (column st cards). ID c \<noteq> cid"
      proof
        fix c assume c: "c \<in> set (column st cards)"
        show "ID c \<noteq> cid"
        proof
          assume "ID c = cid"
          with c only [of c] have "Status (cards ! i) = st" by (simp add: column_def)
          with False ne show False by simp
        qed
      qed
      then have "filter (\<lambda>c. ID c = cid) (column st cards) = []"
        by (simp add: filter_empty_conv)
      with ne show ?thesis by simp
    qed
    show ?thesis by (simp only: 1 2 3 if_False if_True simp_thms)
  next
    case m: True
    let ?cards' = "map (place ?ids ?ust) ?cards1"
    from update_cards_moved_place [OF o f m]
    have u: "step cards (Update cid update) = ?cards'" by simp
    show ?thesis
    proof (cases "?ust = st")
      case True
      from True mem ci m have e: "entering st cards (Update cid update)" by auto
      have "length (column ?ust ?cards') = length ?ids"
        using target_column_ids(3) [OF o f] by (simp add: column_place)
      with target_column_positions(2) [OF o f]
      have "dense_in ?ust ?cards'" by (simp only: dense_in_def)
      with u e True show ?thesis by simp
    next
      case False
      then have ne: "st \<noteq> ?ust" by simp
      then have nov: "\<not> Status ?ov = st" by (simp add: overwrite_def)
      from False have e: "\<not> entering st cards (Update cid update)" by simp
      from filter_list_update_removed [OF d i, of "\<lambda>c. Status c = st" ?ov] nov ci
      have "column st ?cards1 = filter (\<lambda>c. ID c \<noteq> cid \<and> Status c = st) cards"
        by (simp add: column_def)
      also have "\<dots> = filter (\<lambda>c. ID c \<noteq> cid) (column st cards)"
        by (simp add: column_def conj_commute)
      finally have c1: "column st ?cards1 = filter (\<lambda>c. ID c \<noteq> cid) (column st cards)" .
      from map_Position_place_other [OF ne, of ?ids ?cards1] c1 u
      have "map Position (column st (step cards (Update cid update))) =
          map Position (filter (\<lambda>c. ID c \<noteq> cid) (column st cards))" by simp
      from dense_in_removed [OF ok this] e False show ?thesis by simp
    qed
  qed
qed

lemma dense_in_step:
  assumes ok: "board_ok n cards" and n: "int n < 2 ^ 63 - 1"
  shows "dense_in st (step cards r) \<longleftrightarrow>
     (if entering st cards r then True
      else if leaving st cards r = [] then dense_in st cards
      else Position ` set (column st cards) =
             Position ` set (leaving st cards r) \<union>
             {0 ..< int (length (column st cards)) - 1})"
proof (cases r)
  case (Create now crd)
  show ?thesis unfolding Create by (simp add: dense_in_create [OF ok n])
next
  case (Update cid update)
  show ?thesis unfolding Update by (rule dense_in_update [OF ok])
next
  case (Delete cid)
  have e: "entering st cards (Delete cid) = False" by simp
  show ?thesis unfolding Delete by (simp only: e if_False dense_in_delete [OF ok])
qed

lemma leaving_last:
  assumes ok: "board_ok n cards" and dn: "dense_in st cards" and l: "leaving st cards r \<noteq> []"
  shows "Position ` set (column st cards) =
             Position ` set (leaving st cards r) \<union> {0 ..< int (length (column st cards)) - 1} \<longleftrightarrow>
         (\<forall>c \<in> set (leaving st cards r). Position c = int (length (column st cards)) - 1)"
proof -
  let ?col = "column st cards"
  from ok have d: "distinct (map ID cards)" by (simp add: board_ok_def)
  from d have di: "distinct (map ID ?col)" by (simp add: column_def distinct_map_filter)
  from l obtain cid where lv: "leaving st cards r = filter (\<lambda>c. ID c = cid) ?col"
    by (cases r) (auto split: if_splits)
  with l obtain c where c: "c \<in> set ?col" "ID c = cid" by (auto simp: filter_empty_conv)
  from filter_ID_single(2) [OF di c(1)] c(2) lv
  have s: "set (leaving st cards r) = {c}" by simp
  from c(1) have pos: "0 < length ?col" by (cases ?col) auto
  from dn have "Position ` set ?col = {0 ..< int (length ?col)}" by (simp add: dense_in_def)
  from removal_dense_last [OF this pos, of "Position c"] s show ?thesis by simp
qed

lemma fresh_ids_append:
  "fresh_ids cards (xs @ ys) \<longleftrightarrow> fresh_ids cards xs \<and> fresh_ids (foldl step cards xs) ys"
proof (induction xs arbitrary: cards)
  case Nil
  then show ?case by simp
next
  case (Cons x xs)
  then show ?case by (cases x) simp_all
qed

lemma run_snoc: "run (reqs @ [r]) = step (run reqs) r"
  by (simp add: run_def)

lemma dense_empty: "dense (run [])"
  by (simp add: dense_def run_def)

text \<open>
  The dense ordering does not hold of every reachable board. Deleting the first of two
  cards of a column leaves the other one at position 1 in a column of one card, and moving
  the first card to another column does the same: neither the delete handler nor the
  update handler renumbers the column that a card leaves. And when two creates read the
  same clock value, the two cards share their id, and moving one of them within the column
  gives both the same position.
\<close>

theorem dense_ordering_counterexample:
  "fresh_ids []
     [Create 1 \<lparr>ID = [], Title = ''a'', Description = [], Status = ''ToDo'', Position = 0\<rparr>,
      Create 2 \<lparr>ID = [], Title = ''b'', Description = [], Status = ''ToDo'', Position = 0\<rparr>,
      Delete ''1''] \<and>
   run
     [Create 1 \<lparr>ID = [], Title = ''a'', Description = [], Status = ''ToDo'', Position = 0\<rparr>,
      Create 2 \<lparr>ID = [], Title = ''b'', Description = [], Status = ''ToDo'', Position = 0\<rparr>,
      Delete ''1''] =
     [\<lparr>ID = ''2'', Title = ''b'', Description = [], Status = ''ToDo'', Position = 1\<rparr>] \<and>
   \<not> dense (run
     [Create 1 \<lparr>ID = [], Title = ''a'', Description = [], Status = ''ToDo'', Position = 0\<rparr>,
      Create 2 \<lparr>ID = [], Title = ''b'', Description = [], Status = ''ToDo'', Position = 0\<rparr>,
      Delete ''1'']) \<and>
   fresh_ids []
     [Create 1 \<lparr>ID = [], Title = ''a'', Description = [], Status = ''ToDo'', Position = 0\<rparr>,
      Create 2 \<lparr>ID = [], Title = ''b'', Description = [], Status = ''ToDo'', Position = 0\<rparr>,
      Update ''1'' \<lparr>ID = [], Title = ''a'', Description = [], Status = ''Doing'', Position = 5\<rparr>] \<and>
   run
     [Create 1 \<lparr>ID = [], Title = ''a'', Description = [], Status = ''ToDo'', Position = 0\<rparr>,
      Create 2 \<lparr>ID = [], Title = ''b'', Description = [], Status = ''ToDo'', Position = 0\<rparr>,
      Update ''1'' \<lparr>ID = [], Title = ''a'', Description = [], Status = ''Doing'', Position = 5\<rparr>] =
     [\<lparr>ID = ''1'', Title = ''a'', Description = [], Status = ''Doing'', Position = 0\<rparr>,
      \<lparr>ID = ''2'', Title = ''b'', Description = [], Status = ''ToDo'', Position = 1\<rparr>] \<and>
   \<not> dense (run
     [Create 1 \<lparr>ID = [], Title = ''a'', Description = [], Status = ''ToDo'', Position = 0\<rparr>,
      Create 2 \<lparr>ID = [], Title = ''b'', Description = [], Status = ''ToDo'', Position = 0\<rparr>,
      Update ''1'' \<lparr>ID = [], Title = ''a'', Description = [], Status = ''Doing'', Position = 5\<rparr>]) \<and>
   \<not> fresh_ids []
     [Create 7 \<lparr>ID = [], Title = ''a'', Description = [], Status = ''ToDo'', Position = 0\<rparr>,
      Create 7 \<lparr>ID = [], Title = ''b'', Description = [], Status = ''ToDo'', Position = 0\<rparr>,
      Update ''7'' \<lparr>ID = [], Title = ''a'', Description = [], Status = ''ToDo'', Position = 1\<rparr>] \<and>
   run
     [Create 7 \<lparr>ID = [], Title = ''a'', Description = [], Status = ''ToDo'', Position = 0\<rparr>,
      Create 7 \<lparr>ID = [], Title = ''b'', Description = [], Status = ''ToDo'', Position = 0\<rparr>,
      Update ''7'' \<lparr>ID = [], Title = ''a'', Description = [], Status = ''ToDo'', Position = 1\<rparr>] =
     [\<lparr>ID = ''7'', Title = ''a'', Description = [], Status = ''ToDo'', Position = 0\<rparr>,
      \<lparr>ID = ''7'', Title = ''b'', Description = [], Status = ''ToDo'', Position = 0\<rparr>] \<and>
   \<not> dense (run
     [Create 7 \<lparr>ID = [], Title = ''a'', Description = [], Status = ''ToDo'', Position = 0\<rparr>,
      Create 7 \<lparr>ID = [], Title = ''b'', Description = [], Status = ''ToDo'', Position = 0\<rparr>,
      Update ''7'' \<lparr>ID = [], Title = ''a'', Description = [], Status = ''ToDo'', Position = 1\<rparr>])"
proof -
  let ?a = "\<lparr>ID = [], Title = ''a'', Description = [], Status = ''ToDo'', Position = 0\<rparr>"
  let ?b = "\<lparr>ID = [], Title = ''b'', Description = [], Status = ''ToDo'', Position = 0\<rparr>"
  let ?m = "\<lparr>ID = [], Title = ''a'', Description = [], Status = ''Doing'', Position = 5\<rparr>"
  let ?u = "\<lparr>ID = [], Title = ''a'', Description = [], Status = ''ToDo'', Position = 1\<rparr>"
  have 1: "fresh_ids [] [Create 1 ?a, Create 2 ?b, Delete ''1'']"
    by (simp add: run_eval)
  have 2: "run [Create 1 ?a, Create 2 ?b, Delete ''1''] =
     [\<lparr>ID = ''2'', Title = ''b'', Description = [], Status = ''ToDo'', Position = 1\<rparr>]"
    by (simp add: run_eval)
  have 3: "\<not> dense (run [Create 1 ?a, Create 2 ?b, Delete ''1''])"
    unfolding 2 by (auto simp: dense_def column_def)
  have 4: "fresh_ids [] [Create 1 ?a, Create 2 ?b, Update ''1'' ?m]"
    by (simp add: run_eval)
  have 5: "run [Create 1 ?a, Create 2 ?b, Update ''1'' ?m] =
     [\<lparr>ID = ''1'', Title = ''a'', Description = [], Status = ''Doing'', Position = 0\<rparr>,
      \<lparr>ID = ''2'', Title = ''b'', Description = [], Status = ''ToDo'', Position = 1\<rparr>]"
    by (simp add: run_eval)
  have 6: "\<not> dense (run [Create 1 ?a, Create 2 ?b, Update ''1'' ?m])"
    unfolding 5 by (auto simp: dense_def column_def)
  have 7: "\<not> fresh_ids [] [Create 7 ?a, Create 7 ?b, Update ''7'' ?u]"
    by (simp add: run_eval)
  have 8: "run [Create 7 ?a, Create 7 ?b, Update ''7'' ?u] =
     [\<lparr>ID = ''7'', Title = ''a'', Description = [], Status = ''ToDo'', Position = 0\<rparr>,
      \<lparr>ID = ''7'', Title = ''b'', Description = [], Status = ''ToDo'', Position = 0\<rparr>]"
    by (simp add: run_eval)
  have 9: "\<not> dense (run [Create 7 ?a, Create 7 ?b, Update ''7'' ?u])"
  proof
    assume "dense (run [Create 7 ?a, Create 7 ?b, Update ''7'' ?u])"
    then have "{0::int} = {0 ..< 2}" unfolding 8 by (simp add: dense_def column_def)
    then have "(1::int) \<in> {0}" by simp
    then show False by simp
  qed
  from 1 2 3 4 5 6 7 8 9 show ?thesis by (intro conjI)
qed

text \<open>
  C1 (amended): for every board reachable from the empty board by create, update and
  delete requests, fewer than \<open>2^63\<close> of them and every create receiving an id that is not
  on the board, the ids are unique and, for every status, the positions of the cards with
  that status are non-negative and pairwise distinct. After a request they are exactly
  \<open>0, ..., k - 1\<close> for the \<open>k\<close> cards of a status in these cases and no others: the request
  is an update that repositions a card in or into that column; or the request takes a card
  out of the column (a delete, or an update to another status) and the positions of the
  \<open>m\<close> cards that the column had before were \<open>0, ..., m - 2\<close> together with the position of
  that card, which for a dense column means that the card was its last; or the request
  does neither and the column was dense before it. The empty board is dense, and a board
  is dense when each of its columns is.
\<close>

theorem reachable_boards:
  assumes fr: "fresh_ids [] (reqs @ [r])" and b: "length (reqs @ [r]) < 2 ^ 63"
  shows "distinct (map ID (run (reqs @ [r]))) \<and>
         (\<forall>c \<in> set (run (reqs @ [r])). 0 \<le> Position c) \<and>
         (\<forall>st. distinct (map Position (column st (run (reqs @ [r])))) \<and>
               (entering st (run reqs) r \<longrightarrow> dense_in st (run (reqs @ [r]))) \<and>
               (leaving st (run reqs) r \<noteq> [] \<longrightarrow>
                  (dense_in st (run (reqs @ [r])) \<longleftrightarrow>
                   Position ` set (column st (run reqs)) =
                     Position ` set (leaving st (run reqs) r) \<union>
                     {0 ..< int (length (column st (run reqs))) - 1})) \<and>
               (leaving st (run reqs) r \<noteq> [] \<and> dense_in st (run reqs) \<longrightarrow>
                  (dense_in st (run (reqs @ [r])) \<longleftrightarrow>
                   (\<forall>c \<in> set (leaving st (run reqs) r).
                      Position c = int (length (column st (run reqs))) - 1))) \<and>
               (\<not> entering st (run reqs) r \<and> leaving st (run reqs) r = [] \<longrightarrow>
                  (dense_in st (run (reqs @ [r])) \<longleftrightarrow> dense_in st (run reqs)))) \<and>
         (dense (run (reqs @ [r])) \<longleftrightarrow> (\<forall>st. dense_in st (run (reqs @ [r])))) \<and>
         dense (run [])"
proof -
  let ?cards = "run reqs"
  let ?cards' = "run (reqs @ [r])"
  from fr have fr1: "fresh_ids [] reqs" and fr2: "fresh_ids ?cards [r]"
    by (simp_all add: fresh_ids_append run_def)
  from b have b1: "int 0 + int (length reqs) < 2 ^ 63" and n: "int (length reqs) < 2 ^ 63 - 1"
    by simp_all
  from board_ok_foldl [OF board_ok_empty b1 fr1]
  have ok: "board_ok (length reqs) ?cards" by (simp add: run_def)
  from board_ok_step [OF ok n fr2]
  have ok': "board_ok (Suc (length reqs)) ?cards'" by (simp only: run_snoc)
  from ok' have 1: "distinct (map ID ?cards')" and 2: "\<forall>c \<in> set ?cards'. 0 \<le> Position c"
    and 3: "\<And>st. distinct (map Position (column st ?cards'))"
    by (simp_all add: board_ok_def)
  have 4: "(entering st ?cards r \<longrightarrow> dense_in st ?cards') \<and>
           (leaving st ?cards r \<noteq> [] \<longrightarrow>
              (dense_in st ?cards' \<longleftrightarrow>
               Position ` set (column st ?cards) =
                 Position ` set (leaving st ?cards r) \<union>
                 {0 ..< int (length (column st ?cards)) - 1})) \<and>
           (leaving st ?cards r \<noteq> [] \<and> dense_in st ?cards \<longrightarrow>
              (dense_in st ?cards' \<longleftrightarrow>
               (\<forall>c \<in> set (leaving st ?cards r).
                  Position c = int (length (column st ?cards)) - 1))) \<and>
           (\<not> entering st ?cards r \<and> leaving st ?cards r = [] \<longrightarrow>
              (dense_in st ?cards' \<longleftrightarrow> dense_in st ?cards))" for st
  proof -
    note s = dense_in_step [OF ok n, of st r, folded run_snoc]
    have ex: "\<not> entering st ?cards r" if "leaving st ?cards r \<noteq> []"
      using that by (cases r) (auto split: if_splits)
    have a: "entering st ?cards r \<longrightarrow> dense_in st ?cards'"
    proof
      assume "entering st ?cards r"
      with s show "dense_in st ?cards'" by (simp only: if_True simp_thms)
    qed
    have bb: "leaving st ?cards r \<noteq> [] \<longrightarrow>
              (dense_in st ?cards' \<longleftrightarrow>
               Position ` set (column st ?cards) =
                 Position ` set (leaving st ?cards r) \<union>
                 {0 ..< int (length (column st ?cards)) - 1})"
    proof
      assume l: "leaving st ?cards r \<noteq> []"
      from s ex [OF l] l show "dense_in st ?cards' \<longleftrightarrow>
               Position ` set (column st ?cards) =
                 Position ` set (leaving st ?cards r) \<union>
                 {0 ..< int (length (column st ?cards)) - 1}"
        by (simp only: if_not_P if_False simp_thms)
    qed
    have c: "leaving st ?cards r \<noteq> [] \<and> dense_in st ?cards \<longrightarrow>
              (dense_in st ?cards' \<longleftrightarrow>
               (\<forall>c \<in> set (leaving st ?cards r).
                  Position c = int (length (column st ?cards)) - 1))"
    proof
      assume h: "leaving st ?cards r \<noteq> [] \<and> dense_in st ?cards"
      with bb leaving_last [OF ok, of st r]
      show "dense_in st ?cards' \<longleftrightarrow>
               (\<forall>c \<in> set (leaving st ?cards r).
                  Position c = int (length (column st ?cards)) - 1)" by blast
    qed
    have d: "\<not> entering st ?cards r \<and> leaving st ?cards r = [] \<longrightarrow>
              (dense_in st ?cards' \<longleftrightarrow> dense_in st ?cards)"
    proof
      assume h: "\<not> entering st ?cards r \<and> leaving st ?cards r = []"
      with s show "dense_in st ?cards' \<longleftrightarrow> dense_in st ?cards"
        by (simp only: if_not_P if_P if_False if_True simp_thms)
    qed
    from a bb c d show ?thesis by (intro conjI)
  qed
  from 3 4 have 5: "\<forall>st. distinct (map Position (column st ?cards')) \<and>
           (entering st ?cards r \<longrightarrow> dense_in st ?cards') \<and>
           (leaving st ?cards r \<noteq> [] \<longrightarrow>
              (dense_in st ?cards' \<longleftrightarrow>
               Position ` set (column st ?cards) =
                 Position ` set (leaving st ?cards r) \<union>
                 {0 ..< int (length (column st ?cards)) - 1})) \<and>
           (leaving st ?cards r \<noteq> [] \<and> dense_in st ?cards \<longrightarrow>
              (dense_in st ?cards' \<longleftrightarrow>
               (\<forall>c \<in> set (leaving st ?cards r).
                  Position c = int (length (column st ?cards)) - 1))) \<and>
           (\<not> entering st ?cards r \<and> leaving st ?cards r = [] \<longrightarrow>
              (dense_in st ?cards' \<longleftrightarrow> dense_in st ?cards))"
    by (intro allI conjI) (rule 3, (rule 4 [THEN conjunct1]), (rule 4 [THEN conjunct2, THEN conjunct1]),
      (rule 4 [THEN conjunct2, THEN conjunct2, THEN conjunct1]),
      (rule 4 [THEN conjunct2, THEN conjunct2, THEN conjunct2]))
  from 1 2 5 dense_all [of ?cards'] dense_empty show ?thesis by (intro conjI)
qed

theorem reachable_boards_witness:
  "fresh_ids []
     [Create 1 \<lparr>ID = [], Title = ''a'', Description = [], Status = ''ToDo'', Position = 0\<rparr>,
      Create 2 \<lparr>ID = [], Title = ''b'', Description = [], Status = ''ToDo'', Position = 0\<rparr>,
      Delete ''2''] \<and>
   length
     [Create 1 \<lparr>ID = [], Title = ''a'', Description = [], Status = ''ToDo'', Position = 0\<rparr>,
      Create 2 \<lparr>ID = [], Title = ''b'', Description = [], Status = ''ToDo'', Position = 0\<rparr>,
      Delete ''2''] < 2 ^ 63 \<and>
   leaving ''ToDo''
     (run [Create 1 \<lparr>ID = [], Title = ''a'', Description = [], Status = ''ToDo'', Position = 0\<rparr>,
           Create 2 \<lparr>ID = [], Title = ''b'', Description = [], Status = ''ToDo'', Position = 0\<rparr>])
     (Delete ''2'') =
     [\<lparr>ID = ''2'', Title = ''b'', Description = [], Status = ''ToDo'', Position = 1\<rparr>] \<and>
   dense_in ''ToDo''
     (run [Create 1 \<lparr>ID = [], Title = ''a'', Description = [], Status = ''ToDo'', Position = 0\<rparr>,
           Create 2 \<lparr>ID = [], Title = ''b'', Description = [], Status = ''ToDo'', Position = 0\<rparr>]) \<and>
   dense_in ''ToDo''
     (run [Create 1 \<lparr>ID = [], Title = ''a'', Description = [], Status = ''ToDo'', Position = 0\<rparr>,
           Create 2 \<lparr>ID = [], Title = ''b'', Description = [], Status = ''ToDo'', Position = 0\<rparr>,
           Delete ''2'']) \<and>
   distinct (map ID
     (run [Create 1 \<lparr>ID = [], Title = ''a'', Description = [], Status = ''ToDo'', Position = 0\<rparr>,
           Create 2 \<lparr>ID = [], Title = ''b'', Description = [], Status = ''ToDo'', Position = 0\<rparr>,
           Delete ''2'']))"
proof -
  let ?a = "\<lparr>ID = [], Title = ''a'', Description = [], Status = ''ToDo'', Position = 0\<rparr>"
  let ?b = "\<lparr>ID = [], Title = ''b'', Description = [], Status = ''ToDo'', Position = 0\<rparr>"
  let ?reqs = "[Create 1 ?a, Create 2 ?b]"
  let ?r = "Delete ''2''"
  have f: "fresh_ids [] (?reqs @ [?r])" by (simp add: run_eval)
  have l: "length (?reqs @ [?r]) < 2 ^ 63" by simp
  have board: "run ?reqs =
     [\<lparr>ID = ''1'', Title = ''a'', Description = [], Status = ''ToDo'', Position = 0\<rparr>,
      \<lparr>ID = ''2'', Title = ''b'', Description = [], Status = ''ToDo'', Position = 1\<rparr>]"
    by (simp add: run_eval)
  have lv: "leaving ''ToDo'' (run ?reqs) ?r =
     [\<lparr>ID = ''2'', Title = ''b'', Description = [], Status = ''ToDo'', Position = 1\<rparr>]"
    unfolding board by (simp add: column_def)
  have dn: "dense_in ''ToDo'' (run ?reqs)"
    unfolding board by (auto simp: dense_in_def column_def)
  have last: "\<forall>c \<in> set (leaving ''ToDo'' (run ?reqs) ?r).
      Position c = int (length (column ''ToDo'' (run ?reqs))) - 1"
    unfolding lv unfolding board by (simp add: column_def)
  note t = reachable_boards [OF f l]
  from t have d: "distinct (map ID (run (?reqs @ [?r])))" by (rule conjunct1)
  from t have "leaving ''ToDo'' (run ?reqs) ?r \<noteq> [] \<and> dense_in ''ToDo'' (run ?reqs) \<longrightarrow>
      (dense_in ''ToDo'' (run (?reqs @ [?r])) \<longleftrightarrow>
       (\<forall>c \<in> set (leaving ''ToDo'' (run ?reqs) ?r).
          Position c = int (length (column ''ToDo'' (run ?reqs))) - 1))"
    by blast
  with lv dn last have dn': "dense_in ''ToDo'' (run (?reqs @ [?r]))" by simp
  from f l lv dn dn' d show ?thesis by simp
qed

section \<open>What the handlers save\<close>

text \<open>
  Whenever a handler gets as far as \<open>SaveBoard\<close>, the cards it saves are those that \<open>step\<close>
  computes from the cards it loaded: the sequences of requests above describe the boards
  the handlers write.
\<close>

lemma handlers_save_step:
  assumes "LoadBoard unmarshal resp = Inr board"
  shows "saved (post_card unmarshal resp put_fails now (Some crd)) =
           Some (board\<lparr>Cards := step (Cards board) (Create now crd)\<rparr>)"
    and "cid \<in> ID ` set (Cards board) \<Longrightarrow>
         saved (put_card unmarshal resp put_fails cid (Some update)) =
           Some (board\<lparr>Cards := step (Cards board) (Update cid update)\<rparr>)"
    and "cid \<in> ID ` set (Cards board) \<Longrightarrow>
         saved (delete_card unmarshal resp put_fails cid) =
           Some (board\<lparr>Cards := step (Cards board) (Delete cid)\<rparr>)"
proof -
  show "saved (post_card unmarshal resp put_fails now (Some crd)) =
           Some (board\<lparr>Cards := step (Cards board) (Create now crd)\<rparr>)"
    using assms by (simp add: post_card_def save_and_answer_def SaveBoard_def)
next
  assume "cid \<in> ID ` set (Cards board)"
  from findCardIndex_present [OF this] obtain i
    where "findCardIndex (Cards board) cid = int i" by blast
  from update_cards_found [OF this, of update] obtain cards'
    where "update_cards cid update (Cards board) = Inr cards'" by blast
  with assms show "saved (put_card unmarshal resp put_fails cid (Some update)) =
           Some (board\<lparr>Cards := step (Cards board) (Update cid update)\<rparr>)"
    by (simp add: put_card_def save_and_answer_def SaveBoard_def)
next
  assume "cid \<in> ID ` set (Cards board)"
  then obtain c where "c \<in> set (Cards board)" "\<not> ID c \<noteq> cid" by auto
  then have "length (filter (\<lambda>c. ID c \<noteq> cid) (Cards board)) < length (Cards board)"
    by (rule length_filter_less)
  then have "delete_cards cid (Cards board) = Inr (remove_id cid (Cards board))"
    by (simp add: delete_cards_def remove_id_filter Let_def)
  with assms show "saved (delete_card unmarshal resp put_fails cid) =
           Some (board\<lparr>Cards := step (Cards board) (Delete cid)\<rparr>)"
    by (simp add: delete_card_def save_and_answer_def SaveBoard_def)
qed

end
